theory Spec2Isabelle
  imports Main "HOL-Library.Word" "HOL-Library.Multiset"
begin

unbundle bit_operations_syntax

section \<open>Bytes, errors and sides\<close>

type_synonym u8 = "8 word"
type_synonym u16 = "16 word"

text \<open>
  Modelled from the spec: the byte helpers \<open>make_uint16\<close> and \<open>get_byte<i>\<close> are
  declared in headers that are not among the sources. Section 6 of the specification fixes
  big-endian integers everywhere, so byte 0 of a 16-bit value is its high byte.
\<close>

definition make_uint16 :: "u8 \<Rightarrow> u8 \<Rightarrow> u16" where
  "make_uint16 i0 i1 = push_bit 8 (ucast i0) OR ucast i1"

definition get_byte_0 :: "u16 \<Rightarrow> u8" where
  "get_byte_0 x = ucast (drop_bit 8 x)"

definition get_byte_1 :: "u16 \<Rightarrow> u8" where
  "get_byte_1 x = ucast x"

text \<open>
  The exceptions thrown in \<open>tls_extensions.cpp\<close>. \<open>Internal_Error\<close> is what a failed
  \<open>BOTAN_ASSERT\<close> raises. A \<open>TLS_Exception\<close> carries its alert.
\<close>

datatype Alert = DECODE_ERROR | INTERNAL_ERROR

datatype error =
    Decoding_Error
  | TLS_Exception Alert
  | Invalid_Argument
  | Invalid_State
  | Internal_Error


datatype Connection_Side = CLIENT | SERVER

datatype Handshake_Type =
    HELLO_REQUEST | CLIENT_HELLO | SERVER_HELLO | HELLO_VERIFY_REQUEST
  | NEW_SESSION_TICKET | CERTIFICATE | SERVER_KEX | CERTIFICATE_REQUEST
  | SERVER_HELLO_DONE | CERTIFICATE_VERIFY | CLIENT_KEX | FINISHED
  | CERTIFICATE_STATUS | HANDSHAKE_CCS

section \<open>The reader\<close>

text \<open>
  Modelled from the spec: \<open>TLS_Data_Reader\<close> is declared in \<open>tls_reader.h\<close>, which is
  not among the sources. Section 4.A of the specification describes it: a read cursor
  over an immutable byte slice, whose primitives fail with a decode error on truncation,
  on a length that is not a multiple of the element size and on an element count outside
  the given bounds. The cursor only moves forward, so a reader is represented by the
  bytes it has not read yet; every primitive returns its value with the reader after it.
\<close>

type_synonym TLS_Data_Reader = "u8 list"

definition has_remaining :: "TLS_Data_Reader \<Rightarrow> bool" where
  "has_remaining r = (r \<noteq> [])"

definition remaining_bytes :: "TLS_Data_Reader \<Rightarrow> nat" where
  "remaining_bytes r = length r"

definition get_byte :: "TLS_Data_Reader \<Rightarrow> error + (u8 \<times> TLS_Data_Reader)" where
  "get_byte r = (case r of [] \<Rightarrow> Inl Decoding_Error | b # r' \<Rightarrow> Inr (b, r'))"

definition get_uint16_t :: "TLS_Data_Reader \<Rightarrow> error + (u16 \<times> TLS_Data_Reader)" where
  "get_uint16_t r =
     (case r of
        b0 # b1 # r' \<Rightarrow> Inr (make_uint16 b0 b1, r')
      | _ \<Rightarrow> Inl Decoding_Error)"

definition discard_next :: "TLS_Data_Reader \<Rightarrow> nat \<Rightarrow> error + TLS_Data_Reader" where
  "discard_next r n = (if length r < n then Inl Decoding_Error else Inr (drop n r))"

text \<open>\<open>get_elem<uint8_t>\<close> and \<open>get_fixed<uint8_t>\<close>: the next \<open>n\<close> bytes.\<close>

definition get_elem_u8 ::
  "TLS_Data_Reader \<Rightarrow> nat \<Rightarrow> error + (u8 list \<times> TLS_Data_Reader)" where
  "get_elem_u8 r n =
     (if length r < n then Inl Decoding_Error else Inr (take n r, drop n r))"

definition get_fixed_u8 ::
  "TLS_Data_Reader \<Rightarrow> nat \<Rightarrow> error + (u8 list \<times> TLS_Data_Reader)" where
  "get_fixed_u8 r n = get_elem_u8 r n"

text \<open>\<open>get_elem<uint16_t>\<close>: the next \<open>n\<close> big-endian 16-bit elements.\<close>

fun load_be_u16 :: "u8 list \<Rightarrow> u16 list" where
  "load_be_u16 (b0 # b1 # bs) = make_uint16 b0 b1 # load_be_u16 bs"
| "load_be_u16 bs = []"

definition get_elem_u16 ::
  "TLS_Data_Reader \<Rightarrow> nat \<Rightarrow> error + (u16 list \<times> TLS_Data_Reader)" where
  "get_elem_u16 r n =
     (if length r < 2 * n then Inl Decoding_Error
      else Inr (load_be_u16 (take (2 * n) r), drop (2 * n) r))"

text \<open>The length prefix of \<open>len_bytes\<close> bytes (one or two in this file).\<close>

definition get_length_field ::
  "TLS_Data_Reader \<Rightarrow> nat \<Rightarrow> error + (nat \<times> TLS_Data_Reader)" where
  "get_length_field r len_bytes =
     (if len_bytes = 1 then
        (case get_byte r of Inl e \<Rightarrow> Inl e | Inr (b, r') \<Rightarrow> Inr (unat b, r'))
      else if len_bytes = 2 then
        (case get_uint16_t r of Inl e \<Rightarrow> Inl e | Inr (w, r') \<Rightarrow> Inr (unat w, r'))
      else Inl Decoding_Error)"

definition get_num_elems ::
  "TLS_Data_Reader \<Rightarrow> nat \<Rightarrow> nat \<Rightarrow> nat \<Rightarrow> nat \<Rightarrow> error + (nat \<times> TLS_Data_Reader)" where
  "get_num_elems r len_bytes T_size min_elems max_elems =
     (case get_length_field r len_bytes of
        Inl e \<Rightarrow> Inl e
      | Inr (byte_length, r') \<Rightarrow>
          if byte_length mod T_size \<noteq> 0 then Inl Decoding_Error
          else if byte_length div T_size < min_elems \<or> max_elems < byte_length div T_size
          then Inl Decoding_Error
          else Inr (byte_length div T_size, r'))"

definition get_range_u8 ::
  "TLS_Data_Reader \<Rightarrow> nat \<Rightarrow> nat \<Rightarrow> nat \<Rightarrow> error + (u8 list \<times> TLS_Data_Reader)" where
  "get_range_u8 r len_bytes min_elems max_elems =
     (case get_num_elems r len_bytes 1 min_elems max_elems of
        Inl e \<Rightarrow> Inl e
      | Inr (num_elems, r') \<Rightarrow> get_elem_u8 r' num_elems)"

definition get_range_u16 ::
  "TLS_Data_Reader \<Rightarrow> nat \<Rightarrow> nat \<Rightarrow> nat \<Rightarrow> error + (u16 list \<times> TLS_Data_Reader)" where
  "get_range_u16 r len_bytes min_elems max_elems =
     (case get_num_elems r len_bytes 2 min_elems max_elems of
        Inl e \<Rightarrow> Inl e
      | Inr (num_elems, r') \<Rightarrow> get_elem_u16 r' num_elems)"

text \<open>
  \<open>get_string\<close> reads a length-prefixed byte string. A \<open>std::string\<close> is kept as its
  bytes.
\<close>

definition get_string ::
  "TLS_Data_Reader \<Rightarrow> nat \<Rightarrow> nat \<Rightarrow> nat \<Rightarrow> error + (u8 list \<times> TLS_Data_Reader)" where
  "get_string r len_bytes min_bytes max_bytes = get_range_u8 r len_bytes min_bytes max_bytes"

text \<open>
  Modelled from the spec: \<open>append_tls_length_value\<close> (also of \<open>tls_reader.h\<close>) writes a
  length prefix of \<open>tag_size\<close> bytes and then the payload (section 4.A). The specification
  does not say what happens to a payload too long for its prefix; the model reports
  \<open>Invalid_Argument\<close>, the kind section 7 gives to programmer misuse.
\<close>

definition append_tls_length_value :: "u8 list \<Rightarrow> u8 list \<Rightarrow> nat \<Rightarrow> error + u8 list" where
  "append_tls_length_value buf vals tag_size =
     (if tag_size = 1 then
        (if 255 < length vals then Inl Invalid_Argument
         else Inr (buf @ [of_nat (length vals)] @ vals))
      else if tag_size = 2 then
        (if 65535 < length vals then Inl Invalid_Argument
         else Inr (buf @ [get_byte_0 (of_nat (length vals)), get_byte_1 (of_nat (length vals))]
                     @ vals))
      else Inl Invalid_Argument)"

section \<open>Extension codes and carriers\<close>

text \<open>
  Modelled from the spec: the enumeration \<open>Handshake_Extension_Type\<close> is declared in
  \<open>tls_extensions.h\<close>, which is not among the sources. The codes are those of the
  registry table in section 4.B of the specification. A code read from the wire is cast
  to the enumeration whatever its value, so the type is the 16-bit code itself.
\<close>

type_synonym Handshake_Extension_Type = u16

definition TLSEXT_SERVER_NAME_INDICATION :: u16 where "TLSEXT_SERVER_NAME_INDICATION = 0"
definition TLSEXT_CERT_STATUS_REQUEST :: u16 where "TLSEXT_CERT_STATUS_REQUEST = 5"
definition TLSEXT_SUPPORTED_GROUPS :: u16 where "TLSEXT_SUPPORTED_GROUPS = 10"
definition TLSEXT_EC_POINT_FORMATS :: u16 where "TLSEXT_EC_POINT_FORMATS = 11"
definition TLSEXT_SIGNATURE_ALGORITHMS :: u16 where "TLSEXT_SIGNATURE_ALGORITHMS = 13"
definition TLSEXT_USE_SRTP :: u16 where "TLSEXT_USE_SRTP = 14"
definition TLSEXT_ALPN :: u16 where "TLSEXT_ALPN = 16"
definition TLSEXT_ENCRYPT_THEN_MAC :: u16 where "TLSEXT_ENCRYPT_THEN_MAC = 22"
definition TLSEXT_EXTENDED_MASTER_SECRET :: u16 where "TLSEXT_EXTENDED_MASTER_SECRET = 23"
definition TLSEXT_SESSION_TICKET :: u16 where "TLSEXT_SESSION_TICKET = 35"
definition TLSEXT_SUPPORTED_VERSIONS :: u16 where "TLSEXT_SUPPORTED_VERSIONS = 43"
definition TLSEXT_SAFE_RENEGOTIATION :: u16 where "TLSEXT_SAFE_RENEGOTIATION = 65281"

lemmas TLSEXT_defs =
  TLSEXT_SERVER_NAME_INDICATION_def TLSEXT_CERT_STATUS_REQUEST_def
  TLSEXT_SUPPORTED_GROUPS_def TLSEXT_EC_POINT_FORMATS_def TLSEXT_SIGNATURE_ALGORITHMS_def
  TLSEXT_USE_SRTP_def TLSEXT_ALPN_def TLSEXT_ENCRYPT_THEN_MAC_def
  TLSEXT_EXTENDED_MASTER_SECRET_def TLSEXT_SESSION_TICKET_def
  TLSEXT_SUPPORTED_VERSIONS_def TLSEXT_SAFE_RENEGOTIATION_def

text \<open>The cases of the \<open>switch\<close> in \<open>make_extension\<close>.\<close>

definition known_codes :: "u16 list" where
  "known_codes =
     [TLSEXT_SERVER_NAME_INDICATION, TLSEXT_SUPPORTED_GROUPS, TLSEXT_CERT_STATUS_REQUEST,
      TLSEXT_EC_POINT_FORMATS, TLSEXT_SAFE_RENEGOTIATION, TLSEXT_SIGNATURE_ALGORITHMS,
      TLSEXT_USE_SRTP, TLSEXT_ALPN, TLSEXT_EXTENDED_MASTER_SECRET, TLSEXT_ENCRYPT_THEN_MAC,
      TLSEXT_SESSION_TICKET, TLSEXT_SUPPORTED_VERSIONS]"

text \<open>
  Modelled from the spec: the enumeration \<open>ECPointFormat\<close> is declared in
  \<open>tls_extensions.h\<close>; the specification names the formats without their values. The
  values are those of RFC 4492, section 5.1.2, which the source cites for this extension.
\<close>

definition UNCOMPRESSED :: u8 where "UNCOMPRESSED = 0"
definition ANSIX962_COMPRESSED_PRIME :: u8 where "ANSIX962_COMPRESSED_PRIME = 1"
definition ANSIX962_COMPRESSED_CHAR2 :: u8 where "ANSIX962_COMPRESSED_CHAR2 = 2"

text \<open>
  The carriers, one constructor for each class, with the members the class keeps. A
  \<open>Group_Params\<close>, a \<open>Signature_Scheme\<close> and a \<open>Protocol_Version\<close> are cast from the
  16-bit value read, so they are kept as that value. The carrier of
  \<open>Certificate_Status_Request\<close> is defined in a file that is not among the sources; its
  state is the type parameter \<open>'c\<close>.
\<close>

type_synonym Group_Params = u16
type_synonym Signature_Scheme = u16
type_synonym Protocol_Version = u16

datatype 'c Extension =
    Server_Name_Indicator (m_sni_host_name: "u8 list")
  | Supported_Groups (m_groups: "Group_Params list")
  | Certificate_Status_Request 'c
  | Supported_Point_Formats (m_prefers_compressed: bool)
  | Renegotiation_Extension (m_reneg_data: "u8 list")
  | Signature_Algorithms (m_schemes: "Signature_Scheme list")
  | SRTP_Protection_Profiles (m_pp: "u16 list")
  | Application_Layer_Protocol_Notification (m_protocols: "u8 list list")
  | Extended_Master_Secret
  | Encrypt_then_MAC
  | Session_Ticket (m_ticket: "u8 list")
  | Supported_Versions (m_versions: "Protocol_Version list")
  | Unknown_Extension (m_type: Handshake_Extension_Type) (m_value: "u8 list")

text \<open>\<open>Extension::type()\<close>: the static code of a known carrier, the stored one otherwise.\<close>

fun extn_type :: "'c Extension \<Rightarrow> Handshake_Extension_Type" where
  "extn_type (Server_Name_Indicator h) = TLSEXT_SERVER_NAME_INDICATION"
| "extn_type (Supported_Groups gs) = TLSEXT_SUPPORTED_GROUPS"
| "extn_type (Certificate_Status_Request c) = TLSEXT_CERT_STATUS_REQUEST"
| "extn_type (Supported_Point_Formats p) = TLSEXT_EC_POINT_FORMATS"
| "extn_type (Renegotiation_Extension d) = TLSEXT_SAFE_RENEGOTIATION"
| "extn_type (Signature_Algorithms ss) = TLSEXT_SIGNATURE_ALGORITHMS"
| "extn_type (SRTP_Protection_Profiles pp) = TLSEXT_USE_SRTP"
| "extn_type (Application_Layer_Protocol_Notification ps) = TLSEXT_ALPN"
| "extn_type Extended_Master_Secret = TLSEXT_EXTENDED_MASTER_SECRET"
| "extn_type Encrypt_then_MAC = TLSEXT_ENCRYPT_THEN_MAC"
| "extn_type (Session_Ticket t) = TLSEXT_SESSION_TICKET"
| "extn_type (Supported_Versions vs) = TLSEXT_SUPPORTED_VERSIONS"
| "extn_type (Unknown_Extension t v) = t"

section \<open>Parsing the carriers\<close>

text \<open>Facts about the reader that the termination proofs of the loops need.\<close>

lemma get_byte_length:
  "get_byte r = Inr (b, r') \<Longrightarrow> length r = Suc (length r')"
  by (auto simp: get_byte_def split: list.splits)

lemma get_uint16_t_length:
  "get_uint16_t r = Inr (w, r') \<Longrightarrow> length r = Suc (Suc (length r'))"
  by (auto simp: get_uint16_t_def split: list.splits)

lemma discard_next_length:
  "discard_next r n = Inr r' \<Longrightarrow> length r = n + length r'"
  by (auto simp: discard_next_def split: if_splits)

lemma get_elem_u8_length:
  "get_elem_u8 r n = Inr (v, r') \<Longrightarrow> length r = n + length r' \<and> length v = n"
  by (auto simp: get_elem_u8_def split: if_splits)

lemma get_length_field_length:
  "get_length_field r k = Inr (n, r') \<Longrightarrow> length r = k + length r'"
  by (auto simp: get_length_field_def split: if_splits sum.splits
           dest: get_byte_length get_uint16_t_length)

lemma get_range_u8_length:
  "get_range_u8 r k lo hi = Inr (v, r') \<Longrightarrow> length r = k + length v + length r'"
  by (auto simp: get_range_u8_def get_num_elems_def
           split: if_splits sum.splits
           dest!: get_length_field_length get_elem_u8_length)

lemma get_string_length:
  "get_string r k lo hi = Inr (v, r') \<Longrightarrow> length r = k + length v + length r'"
  by (simp add: get_string_def get_range_u8_length)

subsection \<open>\<open>Server_Name_Indicator\<close>\<close>

text \<open>
  The \<open>while(name_bytes)\<close> loop of the constructor. \<open>name_bytes\<close> is a \<open>uint16_t\<close>, so
  its subtractions wrap around. Every iteration reads at least the type byte.
\<close>

function sni_loop ::
  "TLS_Data_Reader \<Rightarrow> u16 \<Rightarrow> u8 list \<Rightarrow> error + (u8 list \<times> TLS_Data_Reader)" where
  "sni_loop r name_bytes host =
     (if name_bytes = 0 then Inr (host, r)
      else
        (case get_byte r of
           Inl e \<Rightarrow> Inl e
         | Inr (name_type, r1) \<Rightarrow>
             if name_type = 0 then
               (case get_string r1 2 1 65535 of
                  Inl e \<Rightarrow> Inl e
                | Inr (h, r2) \<Rightarrow> sni_loop r2 (name_bytes - 1 - of_nat (2 + length h)) h)
             else
               (case discard_next r1 (unat (name_bytes - 1)) of
                  Inl e \<Rightarrow> Inl e
                | Inr r2 \<Rightarrow> sni_loop r2 0 host)))"
  by pat_completeness auto
termination
  by (relation "measure (\<lambda>(r, name_bytes, host). length r)")
     (auto dest!: get_byte_length get_string_length discard_next_length)

definition Server_Name_Indicator_ctor ::
  "TLS_Data_Reader \<Rightarrow> u16 \<Rightarrow> error + ('c Extension \<times> TLS_Data_Reader)" where
  "Server_Name_Indicator_ctor r extension_size =
     (if extension_size = 0 then Inr (Server_Name_Indicator [], r)
      else
        (case get_uint16_t r of
           Inl e \<Rightarrow> Inl e
         | Inr (name_bytes, r1) \<Rightarrow>
             if unat name_bytes + 2 \<noteq> unat extension_size then Inl Decoding_Error
             else
               (case sni_loop r1 name_bytes [] of
                  Inl e \<Rightarrow> Inl e
                | Inr (h, r2) \<Rightarrow> Inr (Server_Name_Indicator h, r2))))"

subsection \<open>\<open>Renegotiation_Extension\<close>\<close>

definition Renegotiation_Extension_ctor ::
  "TLS_Data_Reader \<Rightarrow> u16 \<Rightarrow> error + ('c Extension \<times> TLS_Data_Reader)" where
  "Renegotiation_Extension_ctor r extension_size =
     (case get_range_u8 r 1 0 255 of
        Inl e \<Rightarrow> Inl e
      | Inr (reneg_data, r1) \<Rightarrow>
          if length reneg_data + 1 \<noteq> unat extension_size then Inl Decoding_Error
          else Inr (Renegotiation_Extension reneg_data, r1))"

subsection \<open>\<open>Application_Layer_Protocol_Notification\<close>\<close>

text \<open>
  The \<open>while(bytes_remaining)\<close> loop. \<open>bytes_remaining\<close> is a \<open>size_t\<close>; the loop
  subtracts from it only what it has checked to be no more than it.
\<close>

function alpn_loop ::
  "TLS_Data_Reader \<Rightarrow> nat \<Rightarrow> u8 list list \<Rightarrow> error + (u8 list list \<times> TLS_Data_Reader)" where
  "alpn_loop r bytes_remaining protocols =
     (if bytes_remaining = 0 then Inr (protocols, r)
      else
        (case get_string r 1 0 255 of
           Inl e \<Rightarrow> Inl e
         | Inr (p, r1) \<Rightarrow>
             if bytes_remaining < length p + 1 then Inl Decoding_Error
             else if p = [] then Inl Decoding_Error
             else alpn_loop r1 (bytes_remaining - (length p + 1)) (protocols @ [p])))"
  by pat_completeness auto
termination
  by (relation "measure (\<lambda>(r, bytes_remaining, protocols). bytes_remaining)") auto

text \<open>
  \<open>extension_size - 2\<close> is computed on \<open>int\<close> and converted to the 64-bit \<open>size_t\<close>:
  for \<open>extension_size = 1\<close> it is \<open>2^64 - 1\<close>.
\<close>

definition Application_Layer_Protocol_Notification_ctor ::
  "TLS_Data_Reader \<Rightarrow> u16 \<Rightarrow> Connection_Side \<Rightarrow> error + ('c Extension \<times> TLS_Data_Reader)" where
  "Application_Layer_Protocol_Notification_ctor r extension_size from =
     (if extension_size = 0 then Inr (Application_Layer_Protocol_Notification [], r)
      else
        (case get_uint16_t r of
           Inl e \<Rightarrow> Inl e
         | Inr (name_bytes, r1) \<Rightarrow>
             if int (unat name_bytes) \<noteq> (int (unat extension_size) - 2) mod 2 ^ 64
             then Inl Decoding_Error
             else
               (case alpn_loop r1 (nat ((int (unat extension_size) - 2) mod 2 ^ 64)) [] of
                  Inl e \<Rightarrow> Inl e
                | Inr (protocols, r2) \<Rightarrow>
                    if from = SERVER \<and> length protocols \<noteq> 1
                    then Inl (TLS_Exception DECODE_ERROR)
                    else Inr (Application_Layer_Protocol_Notification protocols, r2))))"

subsection \<open>\<open>Supported_Groups\<close>\<close>

text \<open>
  The loop \<open>for(i = 0; i != elems; ++i)\<close> runs \<open>elems\<close> times; the first argument is
  the number of iterations left, \<open>elems - i\<close>.
\<close>

fun groups_loop ::
  "nat \<Rightarrow> TLS_Data_Reader \<Rightarrow> Group_Params list \<Rightarrow> error + (Group_Params list \<times> TLS_Data_Reader)"
  where
  "groups_loop 0 r groups = Inr (groups, r)"
| "groups_loop (Suc n) r groups =
     (case get_uint16_t r of
        Inl e \<Rightarrow> Inl e
      | Inr (id', r1) \<Rightarrow> groups_loop n r1 (groups @ [id']))"

definition Supported_Groups_ctor ::
  "TLS_Data_Reader \<Rightarrow> u16 \<Rightarrow> error + ('c Extension \<times> TLS_Data_Reader)" where
  "Supported_Groups_ctor r extension_size =
     (case get_uint16_t r of
        Inl e \<Rightarrow> Inl e
      | Inr (len, r1) \<Rightarrow>
          if unat len + 2 \<noteq> unat extension_size then Inl Decoding_Error
          else if unat len mod 2 = 1 then Inl Decoding_Error
          else
            (case groups_loop (unat len div 2) r1 [] of
               Inl e \<Rightarrow> Inl e
             | Inr (groups, r2) \<Rightarrow> Inr (Supported_Groups groups, r2)))"

text \<open>
  \<open>group_param_is_dh\<close> is declared in \<open>tls_algos.h\<close> and defined in a file that is not
  among the sources: the two filters take it as their first argument. Each is the loop
  of the source, pushing onto the back of its result.
\<close>

fun ec_groups_loop ::
  "(Group_Params \<Rightarrow> bool) \<Rightarrow> Group_Params list \<Rightarrow> Group_Params list \<Rightarrow> Group_Params list" where
  "ec_groups_loop group_param_is_dh [] ec = ec"
| "ec_groups_loop group_param_is_dh (g # gs) ec =
     (if group_param_is_dh g = False then ec_groups_loop group_param_is_dh gs (ec @ [g])
      else ec_groups_loop group_param_is_dh gs ec)"

fun dh_groups_loop ::
  "(Group_Params \<Rightarrow> bool) \<Rightarrow> Group_Params list \<Rightarrow> Group_Params list \<Rightarrow> Group_Params list" where
  "dh_groups_loop group_param_is_dh [] dh = dh"
| "dh_groups_loop group_param_is_dh (g # gs) dh =
     (if group_param_is_dh g = True then dh_groups_loop group_param_is_dh gs (dh @ [g])
      else dh_groups_loop group_param_is_dh gs dh)"

definition groups :: "'c Extension \<Rightarrow> Group_Params list" where
  "groups e = m_groups e"

definition ec_groups :: "(Group_Params \<Rightarrow> bool) \<Rightarrow> 'c Extension \<Rightarrow> Group_Params list" where
  "ec_groups group_param_is_dh e = ec_groups_loop group_param_is_dh (m_groups e) []"

definition dh_groups :: "(Group_Params \<Rightarrow> bool) \<Rightarrow> 'c Extension \<Rightarrow> Group_Params list" where
  "dh_groups group_param_is_dh e = dh_groups_loop group_param_is_dh (m_groups e) []"

subsection \<open>\<open>Supported_Point_Formats\<close>\<close>

text \<open>
  The loop \<open>for(i = 0; i != len; ++i)\<close>; the first argument is the number of iterations
  left, \<open>len - i\<close>, so that \<open>len - i - 1\<close> is one less. The last argument is the member
  \<open>m_prefers_compressed\<close>, which the loop leaves as it is when it recognizes no format.
\<close>

fun point_formats_loop ::
  "nat \<Rightarrow> TLS_Data_Reader \<Rightarrow> bool \<Rightarrow> error + (bool \<times> TLS_Data_Reader)" where
  "point_formats_loop 0 r prefers_compressed = Inr (prefers_compressed, r)"
| "point_formats_loop (Suc k) r prefers_compressed =
     (case get_byte r of
        Inl e \<Rightarrow> Inl e
      | Inr (format, r1) \<Rightarrow>
          if format = UNCOMPRESSED then
            (case discard_next r1 k of Inl e \<Rightarrow> Inl e | Inr r2 \<Rightarrow> Inr (False, r2))
          else if format = ANSIX962_COMPRESSED_PRIME then
            (case discard_next r1 k of Inl e \<Rightarrow> Inl e | Inr r2 \<Rightarrow> Inr (True, r2))
          else point_formats_loop k r1 prefers_compressed)"

text \<open>
  Modelled from the spec: the member \<open>m_prefers_compressed\<close> is declared, with its
  initial value, in \<open>tls_extensions.h\<close>; the specification gives no value for a list
  without a recognized format. The serializer of the source sends the uncompressed
  format alone unless the flag is set, and the model starts from the unset flag.
\<close>

definition m_prefers_compressed_initial :: bool where
  "m_prefers_compressed_initial = False"

definition Supported_Point_Formats_ctor ::
  "TLS_Data_Reader \<Rightarrow> u16 \<Rightarrow> error + ('c Extension \<times> TLS_Data_Reader)" where
  "Supported_Point_Formats_ctor r extension_size =
     (case get_byte r of
        Inl e \<Rightarrow> Inl e
      | Inr (len, r1) \<Rightarrow>
          if unat len + 1 \<noteq> unat extension_size then Inl Decoding_Error
          else
            (case point_formats_loop (unat len) r1 m_prefers_compressed_initial of
               Inl e \<Rightarrow> Inl e
             | Inr (prefers_compressed, r2) \<Rightarrow>
                 Inr (Supported_Point_Formats prefers_compressed, r2)))"

subsection \<open>\<open>Signature_Algorithms\<close>\<close>

text \<open>
  The \<open>while(len)\<close> loop; \<open>len\<close> is a \<open>uint16_t\<close> and \<open>len -= 2\<close> wraps around. Every
  iteration reads two bytes.
\<close>

function schemes_loop ::
  "TLS_Data_Reader \<Rightarrow> u16 \<Rightarrow> Signature_Scheme list
     \<Rightarrow> error + (Signature_Scheme list \<times> TLS_Data_Reader)" where
  "schemes_loop r len schemes =
     (if len = 0 then Inr (schemes, r)
      else
        (case get_uint16_t r of
           Inl e \<Rightarrow> Inl e
         | Inr (scheme_code, r1) \<Rightarrow> schemes_loop r1 (len - 2) (schemes @ [scheme_code])))"
  by pat_completeness auto
termination
  by (relation "measure (\<lambda>(r, len, schemes). length r)")
     (auto dest!: get_uint16_t_length)

definition Signature_Algorithms_ctor ::
  "TLS_Data_Reader \<Rightarrow> u16 \<Rightarrow> error + ('c Extension \<times> TLS_Data_Reader)" where
  "Signature_Algorithms_ctor r extension_size =
     (case get_uint16_t r of
        Inl e \<Rightarrow> Inl e
      | Inr (len, r1) \<Rightarrow>
          if unat len + 2 \<noteq> unat extension_size \<or> unat len mod 2 = 1 \<or> len = 0
          then Inl Decoding_Error
          else
            (case schemes_loop r1 len [] of
               Inl e \<Rightarrow> Inl e
             | Inr (schemes, r2) \<Rightarrow> Inr (Signature_Algorithms schemes, r2)))"

subsection \<open>The other carriers\<close>

definition Session_Ticket_ctor ::
  "TLS_Data_Reader \<Rightarrow> u16 \<Rightarrow> error + ('c Extension \<times> TLS_Data_Reader)" where
  "Session_Ticket_ctor r extension_size =
     (case get_elem_u8 r (unat extension_size) of
        Inl e \<Rightarrow> Inl e
      | Inr (ticket, r1) \<Rightarrow> Inr (Session_Ticket ticket, r1))"

definition SRTP_Protection_Profiles_ctor ::
  "TLS_Data_Reader \<Rightarrow> u16 \<Rightarrow> error + ('c Extension \<times> TLS_Data_Reader)" where
  "SRTP_Protection_Profiles_ctor r extension_size =
     (case get_range_u16 r 2 0 65535 of
        Inl e \<Rightarrow> Inl e
      | Inr (pp, r1) \<Rightarrow>
          (case get_range_u8 r1 1 0 255 of
             Inl e \<Rightarrow> Inl e
           | Inr (mki, r2) \<Rightarrow>
               if length pp * 2 + length mki + 3 \<noteq> unat extension_size
               then Inl Decoding_Error
               else if mki \<noteq> [] then Inl Decoding_Error
               else Inr (SRTP_Protection_Profiles pp, r2)))"

definition Extended_Master_Secret_ctor ::
  "TLS_Data_Reader \<Rightarrow> u16 \<Rightarrow> error + ('c Extension \<times> TLS_Data_Reader)" where
  "Extended_Master_Secret_ctor r extension_size =
     (if extension_size \<noteq> 0 then Inl Decoding_Error else Inr (Extended_Master_Secret, r))"

definition Encrypt_then_MAC_ctor ::
  "TLS_Data_Reader \<Rightarrow> u16 \<Rightarrow> error + ('c Extension \<times> TLS_Data_Reader)" where
  "Encrypt_then_MAC_ctor r extension_size =
     (if extension_size \<noteq> 0 then Inl Decoding_Error else Inr (Encrypt_then_MAC, r))"

definition Supported_Versions_ctor ::
  "TLS_Data_Reader \<Rightarrow> u16 \<Rightarrow> Connection_Side \<Rightarrow> error + ('c Extension \<times> TLS_Data_Reader)" where
  "Supported_Versions_ctor r extension_size from =
     (if from = SERVER then
        (if extension_size \<noteq> 2 then Inl Decoding_Error
         else
           (case get_uint16_t r of
              Inl e \<Rightarrow> Inl e
            | Inr (v, r1) \<Rightarrow> Inr (Supported_Versions [v], r1)))
      else
        (case get_range_u16 r 1 1 127 of
           Inl e \<Rightarrow> Inl e
         | Inr (versions, r1) \<Rightarrow>
             if unat extension_size \<noteq> 1 + 2 * length versions then Inl Decoding_Error
             else Inr (Supported_Versions versions, r1)))"

definition Unknown_Extension_ctor ::
  "Handshake_Extension_Type \<Rightarrow> TLS_Data_Reader \<Rightarrow> u16
     \<Rightarrow> error + ('c Extension \<times> TLS_Data_Reader)" where
  "Unknown_Extension_ctor type r extension_size =
     (case get_fixed_u8 r (unat extension_size) of
        Inl e \<Rightarrow> Inl e
      | Inr (v, r1) \<Rightarrow> Inr (Unknown_Extension type v, r1))"

text \<open>
  The constructor of \<open>Certificate_Status_Request\<close> is defined in a file that is not among
  the sources, so it is a parameter, \<open>status_request\<close>, of everything that parses: given
  the unread bytes, the declared size, the side and the message type it throws or returns
  the state of its carrier and the number of bytes it has read. The cursor of a reader
  moves forward and never past the end, which \<open>drop\<close> keeps.
\<close>

type_synonym 'c status_request_ctor =
  "TLS_Data_Reader \<Rightarrow> u16 \<Rightarrow> Connection_Side \<Rightarrow> Handshake_Type \<Rightarrow> error + ('c \<times> nat)"

definition Certificate_Status_Request_ctor ::
  "'c status_request_ctor \<Rightarrow> TLS_Data_Reader \<Rightarrow> u16 \<Rightarrow> Connection_Side \<Rightarrow> Handshake_Type
     \<Rightarrow> error + ('c Extension \<times> TLS_Data_Reader)" where
  "Certificate_Status_Request_ctor status_request r extension_size from message_type =
     (case status_request r extension_size from message_type of
        Inl e \<Rightarrow> Inl e
      | Inr (c, n) \<Rightarrow> Inr (Certificate_Status_Request c, drop n r))"

subsection \<open>The registry\<close>

definition make_extension ::
  "'c status_request_ctor \<Rightarrow> TLS_Data_Reader \<Rightarrow> u16 \<Rightarrow> u16 \<Rightarrow> Connection_Side
     \<Rightarrow> Handshake_Type \<Rightarrow> error + ('c Extension \<times> TLS_Data_Reader)" where
  "make_extension status_request reader code size' from message_type =
     (if code = TLSEXT_SERVER_NAME_INDICATION then Server_Name_Indicator_ctor reader size'
      else if code = TLSEXT_SUPPORTED_GROUPS then Supported_Groups_ctor reader size'
      else if code = TLSEXT_CERT_STATUS_REQUEST
        then Certificate_Status_Request_ctor status_request reader size' from message_type
      else if code = TLSEXT_EC_POINT_FORMATS then Supported_Point_Formats_ctor reader size'
      else if code = TLSEXT_SAFE_RENEGOTIATION then Renegotiation_Extension_ctor reader size'
      else if code = TLSEXT_SIGNATURE_ALGORITHMS then Signature_Algorithms_ctor reader size'
      else if code = TLSEXT_USE_SRTP then SRTP_Protection_Profiles_ctor reader size'
      else if code = TLSEXT_ALPN
        then Application_Layer_Protocol_Notification_ctor reader size' from
      else if code = TLSEXT_EXTENDED_MASTER_SECRET then Extended_Master_Secret_ctor reader size'
      else if code = TLSEXT_ENCRYPT_THEN_MAC then Encrypt_then_MAC_ctor reader size'
      else if code = TLSEXT_SESSION_TICKET then Session_Ticket_ctor reader size'
      else if code = TLSEXT_SUPPORTED_VERSIONS then Supported_Versions_ctor reader size' from
      else Unknown_Extension_ctor code reader size')"

declare sni_loop.simps [simp del] alpn_loop.simps [simp del] schemes_loop.simps [simp del]

text \<open>No constructor moves the cursor backwards.\<close>

lemma sni_loop_length:
  "sni_loop r name_bytes host = Inr (h, r') \<Longrightarrow> length r' \<le> length r"
proof (induction r name_bytes host rule: sni_loop.induct)
  case (1 r name_bytes host)
  show ?case
  proof (cases "name_bytes = 0")
    case True
    with "1.prems" show ?thesis by (simp add: sni_loop.simps)
  next
    case False
    with "1.prems" obtain name_type r1 where g: "get_byte r = Inr (name_type, r1)"
      by (subst (asm) sni_loop.simps) (auto split: sum.splits)
    show ?thesis
    proof (cases "name_type = 0")
      case True
      with "1.prems" False g obtain h1 r2 where
        s: "get_string r1 2 1 65535 = Inr (h1, r2)" and
        rec: "sni_loop r2 (name_bytes - 1 - of_nat (2 + length h1)) h1 = Inr (h, r')"
        by (subst (asm) sni_loop.simps) (auto split: sum.splits)
      from "1.IH"(1) [OF False g refl True s refl rec] have "length r' \<le> length r2" .
      with get_byte_length [OF g] get_string_length [OF s] show ?thesis by simp
    next
      case nz: False
      with "1.prems" False g obtain r2 where
        d: "discard_next r1 (unat (name_bytes - 1)) = Inr r2" and
        rec: "sni_loop r2 0 host = Inr (h, r')"
        by (subst (asm) sni_loop.simps) (auto split: sum.splits)
      from rec have "r' = r2" by (simp add: sni_loop.simps)
      with get_byte_length [OF g] discard_next_length [OF d] show ?thesis by simp
    qed
  qed
qed

lemma alpn_loop_length:
  "alpn_loop r bytes_remaining protocols = Inr (ps, r') \<Longrightarrow> length r' \<le> length r"
proof (induction r bytes_remaining protocols rule: alpn_loop.induct)
  case (1 r bytes_remaining protocols)
  show ?case
  proof (cases "bytes_remaining = 0")
    case True
    with "1.prems" show ?thesis by (simp add: alpn_loop.simps)
  next
    case False
    with "1.prems" obtain p r1 where
      g: "get_string r 1 0 255 = Inr (p, r1)" and
      c: "\<not> bytes_remaining < length p + 1" "p \<noteq> []" and
      rec: "alpn_loop r1 (bytes_remaining - (length p + 1)) (protocols @ [p]) = Inr (ps, r')"
      by (subst (asm) alpn_loop.simps) (auto split: sum.splits if_splits)
    from "1.IH" [OF False g refl c rec] have "length r' \<le> length r1" .
    with get_string_length [OF g] show ?thesis by simp
  qed
qed

lemma schemes_loop_length:
  "schemes_loop r len schemes = Inr (ss, r') \<Longrightarrow> length r' \<le> length r"
proof (induction r len schemes rule: schemes_loop.induct)
  case (1 r len schemes)
  show ?case
  proof (cases "len = 0")
    case True
    with "1.prems" show ?thesis by (simp add: schemes_loop.simps)
  next
    case False
    with "1.prems" obtain w r1 where
      g: "get_uint16_t r = Inr (w, r1)" and
      rec: "schemes_loop r1 (len - 2) (schemes @ [w]) = Inr (ss, r')"
      by (subst (asm) schemes_loop.simps) (auto split: sum.splits)
    from "1.IH" [OF False g refl rec] have "length r' \<le> length r1" .
    with get_uint16_t_length [OF g] show ?thesis by simp
  qed
qed

lemma groups_loop_length:
  "groups_loop n r gs0 = Inr (gs, r') \<Longrightarrow> length r' \<le> length r"
proof (induction n arbitrary: r gs0)
  case 0
  then show ?case by simp
next
  case (Suc n)
  from Suc.prems obtain w r1 where
    g: "get_uint16_t r = Inr (w, r1)" and rec: "groups_loop n r1 (gs0 @ [w]) = Inr (gs, r')"
    by (auto split: sum.splits)
  from Suc.IH [OF rec] get_uint16_t_length [OF g] show ?case by simp
qed

lemma point_formats_loop_length:
  "point_formats_loop k r p = Inr (p', r') \<Longrightarrow> length r' \<le> length r"
proof (induction k arbitrary: r)
  case 0
  then show ?case by simp
next
  case (Suc k)
  from Suc.prems obtain f r1 where g: "get_byte r = Inr (f, r1)"
    by (auto split: sum.splits)
  from Suc.prems g consider
      r2 where "discard_next r1 k = Inr r2" "r' = r2"
    | "point_formats_loop k r1 p = Inr (p', r')"
    by (auto split: sum.splits if_splits)
  then show ?case
  proof cases
    case 1
    with discard_next_length [of r1 k r2] get_byte_length [OF g] show ?thesis by simp
  next
    case 2
    from Suc.IH [OF 2] get_byte_length [OF g] show ?thesis by simp
  qed
qed

lemma get_elem_u16_length:
  "get_elem_u16 r n = Inr (v, r') \<Longrightarrow> length r = 2 * n + length r'"
  by (auto simp: get_elem_u16_def split: if_splits)

lemma get_range_u16_length:
  "get_range_u16 r k lo hi = Inr (v, r') \<Longrightarrow> length r' \<le> length r"
  by (auto simp: get_range_u16_def get_num_elems_def
           split: if_splits sum.splits
           dest!: get_length_field_length get_elem_u16_length)

lemma make_extension_length:
  assumes "make_extension status_request r code size' from message_type = Inr (extn, r')"
  shows "length r' \<le> length r"
proof -
  have sni: "Server_Name_Indicator_ctor r size' = Inr (extn, r') \<Longrightarrow> ?thesis"
    unfolding Server_Name_Indicator_ctor_def
    by (auto split: if_splits sum.splits dest!: get_uint16_t_length sni_loop_length)
  have grp: "Supported_Groups_ctor r size' = Inr (extn, r') \<Longrightarrow> ?thesis"
    unfolding Supported_Groups_ctor_def
    by (auto split: if_splits sum.splits dest!: get_uint16_t_length groups_loop_length)
  have csr: "Certificate_Status_Request_ctor status_request r size' from message_type
               = Inr (extn, r') \<Longrightarrow> ?thesis"
    unfolding Certificate_Status_Request_ctor_def
    by (auto split: sum.splits)
  have spf: "Supported_Point_Formats_ctor r size' = Inr (extn, r') \<Longrightarrow> ?thesis"
    unfolding Supported_Point_Formats_ctor_def
    by (auto split: if_splits sum.splits dest!: get_byte_length point_formats_loop_length)
  have ren: "Renegotiation_Extension_ctor r size' = Inr (extn, r') \<Longrightarrow> ?thesis"
    unfolding Renegotiation_Extension_ctor_def
    by (auto split: if_splits sum.splits dest!: get_range_u8_length)
  have sig: "Signature_Algorithms_ctor r size' = Inr (extn, r') \<Longrightarrow> ?thesis"
    unfolding Signature_Algorithms_ctor_def
    by (auto split: if_splits sum.splits dest!: get_uint16_t_length schemes_loop_length)
  have srtp: "SRTP_Protection_Profiles_ctor r size' = Inr (extn, r') \<Longrightarrow> ?thesis"
    unfolding SRTP_Protection_Profiles_ctor_def
    by (auto split: if_splits sum.splits dest!: get_range_u8_length get_range_u16_length)
  have alpn: "Application_Layer_Protocol_Notification_ctor r size' from = Inr (extn, r')
                \<Longrightarrow> ?thesis"
    unfolding Application_Layer_Protocol_Notification_ctor_def
    by (auto split: if_splits sum.splits dest!: get_uint16_t_length alpn_loop_length)
  have ems: "Extended_Master_Secret_ctor r size' = Inr (extn, r') \<Longrightarrow> ?thesis"
    unfolding Extended_Master_Secret_ctor_def by (auto split: if_splits)
  have etm: "Encrypt_then_MAC_ctor r size' = Inr (extn, r') \<Longrightarrow> ?thesis"
    unfolding Encrypt_then_MAC_ctor_def by (auto split: if_splits)
  have tick: "Session_Ticket_ctor r size' = Inr (extn, r') \<Longrightarrow> ?thesis"
    unfolding Session_Ticket_ctor_def
    by (auto split: sum.splits dest!: get_elem_u8_length)
  have ver: "Supported_Versions_ctor r size' from = Inr (extn, r') \<Longrightarrow> ?thesis"
    unfolding Supported_Versions_ctor_def
    by (auto split: if_splits sum.splits dest!: get_uint16_t_length get_range_u16_length)
  have unk: "Unknown_Extension_ctor code r size' = Inr (extn, r') \<Longrightarrow> ?thesis"
    unfolding Unknown_Extension_ctor_def get_fixed_u8_def
    by (auto split: sum.splits dest!: get_elem_u8_length)
  from assms show ?thesis
    unfolding make_extension_def
    by (auto split: if_splits
             intro: sni grp csr spf ren sig srtp alpn ems etm tick ver unk)
qed

section \<open>The container\<close>

text \<open>
  \<open>Extensions\<close> keeps its carriers in the vector \<open>m_extensions\<close>, in insertion order. A
  method that changes the container returns the exception it throws, if any, with the
  container it leaves behind.

  Modelled from the spec: \<open>has\<close> is defined in \<open>tls_extensions.h\<close>; by section 4.D it
  is the presence test on the code.
\<close>

type_synonym 'c Extensions = "'c Extension list"

definition has :: "'c Extensions \<Rightarrow> Handshake_Extension_Type \<Rightarrow> bool" where
  "has m_extensions type = (type \<in> set (map extn_type m_extensions))"

definition add :: "'c Extensions \<Rightarrow> 'c Extension \<Rightarrow> error option \<times> 'c Extensions" where
  "add m_extensions extn =
     (if has m_extensions (extn_type extn) then (Some Invalid_Argument, m_extensions)
      else (None, m_extensions @ [extn]))"

text \<open>The \<open>while(reader.has_remaining())\<close> loop of \<open>deserialize\<close>.\<close>

function deserialize_loop ::
  "'c status_request_ctor \<Rightarrow> 'c Extensions \<Rightarrow> TLS_Data_Reader \<Rightarrow> Connection_Side
     \<Rightarrow> Handshake_Type \<Rightarrow> error option \<times> 'c Extensions" where
  "deserialize_loop status_request m_extensions reader from message_type =
     (if \<not> has_remaining reader then (None, m_extensions)
      else
        (case get_uint16_t reader of
           Inl e \<Rightarrow> (Some e, m_extensions)
         | Inr (extension_code, r1) \<Rightarrow>
             (case get_uint16_t r1 of
                Inl e \<Rightarrow> (Some e, m_extensions)
              | Inr (extension_size, r2) \<Rightarrow>
                  if has m_extensions extension_code
                  then (Some (TLS_Exception DECODE_ERROR), m_extensions)
                  else
                    (case make_extension status_request r2 extension_code extension_size
                            from message_type of
                       Inl e \<Rightarrow> (Some e, m_extensions)
                     | Inr (extn, r3) \<Rightarrow>
                         (case add m_extensions extn of
                            (Some e, exts) \<Rightarrow> (Some e, exts)
                          | (None, exts) \<Rightarrow>
                              deserialize_loop status_request exts r3 from message_type)))))"
  by pat_completeness auto
termination
  by (relation "measure (\<lambda>(status_request, m_extensions, reader, from, message_type).
                   length reader)")
     (auto dest!: get_uint16_t_length make_extension_length)

declare deserialize_loop.simps [simp del]

definition deserialize ::
  "'c status_request_ctor \<Rightarrow> 'c Extensions \<Rightarrow> TLS_Data_Reader \<Rightarrow> Connection_Side
     \<Rightarrow> Handshake_Type \<Rightarrow> error option \<times> 'c Extensions" where
  "deserialize status_request m_extensions reader from message_type =
     (if has_remaining reader then
        (case get_uint16_t reader of
           Inl e \<Rightarrow> (Some e, m_extensions)
         | Inr (all_extn_size, r1) \<Rightarrow>
             if remaining_bytes r1 \<noteq> unat all_extn_size
             then (Some Decoding_Error, m_extensions)
             else deserialize_loop status_request m_extensions r1 from message_type)
      else (None, m_extensions))"

text \<open>\<open>extension_types\<close> collects the codes into a \<open>std::set\<close>.\<close>

definition extension_types :: "'c Extensions \<Rightarrow> Handshake_Extension_Type set" where
  "extension_types m_extensions = set (map extn_type m_extensions)"

section \<open>Serializing\<close>

text \<open>
  Modelled from the spec: the overrides of \<open>Extension::empty()\<close> are defined in
  \<open>tls_extensions.h\<close>, which is not among the sources. By section 3 of the
  specification an extension whose logical payload is empty is elided from the wire
  block: a carrier of a list is empty when its list is. By section 4.D the two markers
  are written, with a payload of length 0; scenario (b) of section 8 writes a server name
  and scenario (d) has an unknown extension reach its serializer: these are never empty.
  Nor are the carriers whose payload is sent whatever their state: renegotiation data,
  point formats and a session ticket. For \<open>Certificate_Status_Request\<close> the answer is
  the parameter \<open>status_request_empty\<close>.
\<close>

fun extn_empty :: "('c \<Rightarrow> bool) \<Rightarrow> 'c Extension \<Rightarrow> bool" where
  "extn_empty status_request_empty (Server_Name_Indicator h) = False"
| "extn_empty status_request_empty (Supported_Groups gs) = (gs = [])"
| "extn_empty status_request_empty (Certificate_Status_Request c) = status_request_empty c"
| "extn_empty status_request_empty (Supported_Point_Formats p) = False"
| "extn_empty status_request_empty (Renegotiation_Extension d) = False"
| "extn_empty status_request_empty (Signature_Algorithms ss) = (ss = [])"
| "extn_empty status_request_empty (SRTP_Protection_Profiles pp) = (pp = [])"
| "extn_empty status_request_empty (Application_Layer_Protocol_Notification ps) = (ps = [])"
| "extn_empty status_request_empty Extended_Master_Secret = False"
| "extn_empty status_request_empty Encrypt_then_MAC = False"
| "extn_empty status_request_empty (Session_Ticket t) = False"
| "extn_empty status_request_empty (Supported_Versions vs) = (vs = [])"
| "extn_empty status_request_empty (Unknown_Extension t v) = False"

text \<open>The loop of the ALPN serializer, over the protocols still to write.\<close>

fun alpn_serialize_loop :: "u8 list list \<Rightarrow> u8 list \<Rightarrow> error + u8 list" where
  "alpn_serialize_loop [] buf = Inr buf"
| "alpn_serialize_loop (p # ps) buf =
     (if 256 \<le> length p then Inl (TLS_Exception INTERNAL_ERROR)
      else if p \<noteq> [] then
        (case append_tls_length_value buf p 1 of
           Inl e \<Rightarrow> Inl e
         | Inr buf' \<Rightarrow> alpn_serialize_loop ps buf')
      else alpn_serialize_loop ps buf)"

text \<open>
  The loops that push a list of 16-bit values onto the back of a buffer, high byte first.
\<close>

definition push_back_u16s :: "u8 list \<Rightarrow> u16 list \<Rightarrow> u8 list" where
  "push_back_u16s buf xs = foldl (\<lambda>b x. b @ [get_byte_0 x, get_byte_1 x]) buf xs"

text \<open>
  The serializer of each carrier. That of \<open>Certificate_Status_Request\<close> is the
  parameter \<open>status_request_serialize\<close>.

  Modelled from the spec: the serializer of \<open>Session_Ticket\<close> is defined in
  \<open>tls_extensions.h\<close>, which is not among the sources; by the registry table of
  section 4.B the carrier holds the opaque ticket bytes, and they are its payload.
\<close>

fun extn_serialize ::
  "('c \<Rightarrow> Connection_Side \<Rightarrow> error + u8 list) \<Rightarrow> 'c Extension \<Rightarrow> Connection_Side
     \<Rightarrow> error + u8 list" where
  "extn_serialize status_request_serialize (Unknown_Extension t v) whoami = Inl Invalid_State"
| "extn_serialize status_request_serialize (Server_Name_Indicator host) whoami =
     Inr ([get_byte_0 (of_nat (length host + 3)), get_byte_1 (of_nat (length host + 3)), 0,
           get_byte_0 (of_nat (length host)), get_byte_1 (of_nat (length host))] @ host)"
| "extn_serialize status_request_serialize (Renegotiation_Extension reneg_data) whoami =
     append_tls_length_value [] reneg_data 1"
| "extn_serialize status_request_serialize
       (Application_Layer_Protocol_Notification protocols) whoami =
     (case alpn_serialize_loop protocols [0, 0] of
        Inl e \<Rightarrow> Inl e
      | Inr buf \<Rightarrow>
          Inr (buf[0 := get_byte_0 (of_nat (length buf - 2)),
                   1 := get_byte_1 (of_nat (length buf - 2))]))"
| "extn_serialize status_request_serialize (Supported_Groups gs) whoami =
     (let buf = foldl (\<lambda>b g. if 0 < g then b @ [get_byte_0 g, get_byte_1 g] else b) [0, 0] gs
      in Inr (buf[0 := get_byte_0 (of_nat (length buf - 2)),
                  1 := get_byte_1 (of_nat (length buf - 2))]))"
| "extn_serialize status_request_serialize (Supported_Point_Formats prefers_compressed) whoami =
     (if prefers_compressed then Inr [2, ANSIX962_COMPRESSED_PRIME, UNCOMPRESSED]
      else Inr [1, UNCOMPRESSED])"
| "extn_serialize status_request_serialize (Signature_Algorithms schemes) whoami =
     (if \<not> length schemes < 256 then Inl Internal_Error
      else Inr (push_back_u16s
                  [get_byte_0 (of_nat (length schemes * 2)),
                   get_byte_1 (of_nat (length schemes * 2))] schemes))"
| "extn_serialize status_request_serialize (Session_Ticket ticket) whoami = Inr ticket"
| "extn_serialize status_request_serialize (SRTP_Protection_Profiles pp) whoami =
     Inr (push_back_u16s
            [get_byte_0 (of_nat (length pp * 2)), get_byte_1 (of_nat (length pp * 2))] pp
          @ [0])"
| "extn_serialize status_request_serialize Extended_Master_Secret whoami = Inr []"
| "extn_serialize status_request_serialize Encrypt_then_MAC whoami = Inr []"
| "extn_serialize status_request_serialize (Supported_Versions versions) whoami =
     (if whoami = SERVER then
        (if length versions \<noteq> 1 then Inl Internal_Error
         else Inr [get_byte_0 (versions ! 0), get_byte_1 (versions ! 0)])
      else
        (if versions = [] then Inl Internal_Error
         else Inr (push_back_u16s [of_nat (length versions * 2)] versions)))"
| "extn_serialize status_request_serialize (Certificate_Status_Request c) whoami =
     status_request_serialize c whoami"

text \<open>The loop of \<open>Extensions::serialize\<close> over the carriers still to write.\<close>

fun serialize_loop ::
  "('c \<Rightarrow> bool) \<Rightarrow> ('c \<Rightarrow> Connection_Side \<Rightarrow> error + u8 list) \<Rightarrow> Connection_Side
     \<Rightarrow> 'c Extensions \<Rightarrow> u8 list \<Rightarrow> error + u8 list" where
  "serialize_loop status_request_empty status_request_serialize whoami [] buf = Inr buf"
| "serialize_loop status_request_empty status_request_serialize whoami (extn # extns) buf =
     (if extn_empty status_request_empty extn
      then serialize_loop status_request_empty status_request_serialize whoami extns buf
      else
        (case extn_serialize status_request_serialize extn whoami of
           Inl e \<Rightarrow> Inl e
         | Inr extn_val \<Rightarrow>
             serialize_loop status_request_empty status_request_serialize whoami extns
               (buf @ [get_byte_0 (extn_type extn), get_byte_1 (extn_type extn),
                       get_byte_0 (of_nat (length extn_val)),
                       get_byte_1 (of_nat (length extn_val))] @ extn_val)))"

definition serialize ::
  "('c \<Rightarrow> bool) \<Rightarrow> ('c \<Rightarrow> Connection_Side \<Rightarrow> error + u8 list) \<Rightarrow> 'c Extensions
     \<Rightarrow> Connection_Side \<Rightarrow> error + u8 list" where
  "serialize status_request_empty status_request_serialize m_extensions whoami =
     (case serialize_loop status_request_empty status_request_serialize whoami
             m_extensions [0, 0] of
        Inl e \<Rightarrow> Inl e
      | Inr buf \<Rightarrow>
          (let extn_size = of_nat (length buf - 2) :: u16;
               buf' = buf[0 := get_byte_0 extn_size, 1 := get_byte_1 extn_size]
           in if length buf' = 2 then Inr [] else Inr buf'))"

section \<open>Notions of the statements\<close>

text \<open>
  The wire form of one extension, following section 4.D of the specification: the code,
  the length of the payload and the payload.
\<close>

definition wire_extension :: "Handshake_Extension_Type \<Rightarrow> u8 list \<Rightarrow> u8 list" where
  "wire_extension code payload =
     [get_byte_0 code, get_byte_1 code,
      get_byte_0 (of_nat (length payload)), get_byte_1 (of_nat (length payload))] @ payload"

text \<open>The carriers that \<open>serialize\<close> does not skip.\<close>

definition written :: "('c \<Rightarrow> bool) \<Rightarrow> 'c Extensions \<Rightarrow> 'c Extensions" where
  "written status_request_empty m_extensions =
     filter (\<lambda>extn. \<not> extn_empty status_request_empty extn) m_extensions"



text \<open>Big-endian 16-bit elements, as \<open>get_elem\<close> loads them and the serializers push them.\<close>

definition store_be_u16 :: "u16 list \<Rightarrow> u8 list" where
  "store_be_u16 xs = concat (map (\<lambda>x. [get_byte_0 x, get_byte_1 x]) xs)"

text \<open>The formats the constructor recognizes.\<close>

definition recognized_format :: "u8 \<Rightarrow> bool" where
  "recognized_format format \<longleftrightarrow>
     format = UNCOMPRESSED \<or> format = ANSIX962_COMPRESSED_PRIME"

text \<open>
  The containers reachable from a new, empty one by calls of \<open>add\<close> and \<open>deserialize\<close>,
  whether a call returns or throws.
\<close>

inductive reachable :: "'c status_request_ctor \<Rightarrow> 'c Extensions \<Rightarrow> bool"
  for status_request :: "'c status_request_ctor" where
  new: "reachable status_request []"
| by_add:
    "reachable status_request m_extensions \<Longrightarrow>
     add m_extensions extn = (thrown, m_extensions') \<Longrightarrow>
     reachable status_request m_extensions'"
| by_deserialize:
    "reachable status_request m_extensions \<Longrightarrow>
     deserialize status_request m_extensions reader from message_type
       = (thrown, m_extensions') \<Longrightarrow>
     reachable status_request m_extensions'"



text \<open>
  The carriers that are written and read back unchanged by the side \<open>whoami\<close>: what
  their serializer writes is what their constructor accepts, with a size that fits 16
  bits. An unknown extension cannot be serialized, and the carrier of
  \<open>Certificate_Status_Request\<close> is not among the sources.
\<close>

fun wire_faithful :: "Connection_Side \<Rightarrow> 'c Extension \<Rightarrow> bool" where
  "wire_faithful whoami (Server_Name_Indicator host) =
     (1 \<le> length host \<and> length host \<le> 65530)"
| "wire_faithful whoami (Supported_Groups gs) =
     (gs \<noteq> [] \<and> 0 \<notin> set gs \<and> length gs \<le> 32766)"
| "wire_faithful whoami (Certificate_Status_Request c) = False"
| "wire_faithful whoami (Supported_Point_Formats prefers_compressed) = True"
| "wire_faithful whoami (Renegotiation_Extension reneg_data) = (length reneg_data \<le> 255)"
| "wire_faithful whoami (Signature_Algorithms schemes) =
     (schemes \<noteq> [] \<and> length schemes < 256)"
| "wire_faithful whoami (SRTP_Protection_Profiles pp) = (pp \<noteq> [] \<and> length pp \<le> 32766)"
| "wire_faithful whoami (Application_Layer_Protocol_Notification protocols) =
     (protocols \<noteq> [] \<and> list_all (\<lambda>p. p \<noteq> [] \<and> length p < 256) protocols
      \<and> length (concat protocols) + length protocols \<le> 65533
      \<and> (if whoami = SERVER then length protocols = 1 else True))"
| "wire_faithful whoami Extended_Master_Secret = True"
| "wire_faithful whoami Encrypt_then_MAC = True"
| "wire_faithful whoami (Session_Ticket ticket) = (length ticket \<le> 65535)"
| "wire_faithful whoami (Supported_Versions versions) =
     (if whoami = SERVER then length versions = 1
      else versions \<noteq> [] \<and> length versions \<le> 127)"
| "wire_faithful whoami (Unknown_Extension t v) = False"

section \<open>Facts about bytes and the reader\<close>

lemma make_uint16_get_byte [simp]: "make_uint16 (get_byte_0 x) (get_byte_1 x) = x"
  unfolding make_uint16_def get_byte_0_def get_byte_1_def
  by (rule bit_word_eqI) (auto simp add: bit_simps)

lemma get_byte_0_make_uint16 [simp]: "get_byte_0 (make_uint16 a b) = a"
  unfolding make_uint16_def get_byte_0_def
  by (rule bit_word_eqI) (auto simp add: bit_simps dest: bit_imp_le_length)

lemma get_byte_1_make_uint16 [simp]: "get_byte_1 (make_uint16 a b) = b"
  unfolding make_uint16_def get_byte_1_def
  by (rule bit_word_eqI) (auto simp add: bit_simps dest: bit_imp_le_length)

lemma get_byte_Inr: "get_byte r = Inr (b, r') \<longleftrightarrow> r = b # r'"
  by (auto simp: get_byte_def split: list.splits)

lemma get_uint16_t_Inr:
  "get_uint16_t r = Inr (w, r') \<longleftrightarrow> r = get_byte_0 w # get_byte_1 w # r'"
  by (auto simp: get_uint16_t_def split: list.splits)



section \<open>Evaluating the model on concrete bytes\<close>

text \<open>The loops over a count, unfolded one iteration at a time.\<close>

lemma groups_loop_unfold:
  "groups_loop n r gs =
     (if n = 0 then Inr (gs, r)
      else (case get_uint16_t r of
              Inl e \<Rightarrow> Inl e
            | Inr (w, r1) \<Rightarrow> groups_loop (n - 1) r1 (gs @ [w])))"
  by (cases n) (auto split: sum.splits)

lemma point_formats_loop_unfold:
  "point_formats_loop n r p =
     (if n = 0 then Inr (p, r)
      else (case get_byte r of
        Inl e \<Rightarrow> Inl e
      | Inr (format, r1) \<Rightarrow>
          if format = UNCOMPRESSED then
            (case discard_next r1 (n - 1) of Inl e \<Rightarrow> Inl e | Inr r2 \<Rightarrow> Inr (False, r2))
          else if format = ANSIX962_COMPRESSED_PRIME then
            (case discard_next r1 (n - 1) of Inl e \<Rightarrow> Inl e | Inr r2 \<Rightarrow> Inr (True, r2))
          else point_formats_loop (n - 1) r1 p))"
  by (cases n) (auto split: sum.splits)

lemmas reader_eval =
  has_remaining_def remaining_bytes_def get_byte_def get_uint16_t_def discard_next_def
  get_elem_u8_def get_fixed_u8_def get_elem_u16_def get_length_field_def get_num_elems_def
  get_range_u8_def get_range_u16_def get_string_def make_uint16_def get_byte_0_def
  get_byte_1_def append_tls_length_value_def

lemmas ctor_eval =
  make_extension_def TLSEXT_defs
  Server_Name_Indicator_ctor_def Supported_Groups_ctor_def
  Certificate_Status_Request_ctor_def Supported_Point_Formats_ctor_def
  Renegotiation_Extension_ctor_def Signature_Algorithms_ctor_def
  SRTP_Protection_Profiles_ctor_def Application_Layer_Protocol_Notification_ctor_def
  Extended_Master_Secret_ctor_def Encrypt_then_MAC_ctor_def Session_Ticket_ctor_def
  Supported_Versions_ctor_def Unknown_Extension_ctor_def
  sni_loop.simps alpn_loop.simps schemes_loop.simps groups_loop_unfold
  point_formats_loop_unfold UNCOMPRESSED_def ANSIX962_COMPRESSED_PRIME_def
  m_prefers_compressed_initial_def

lemmas container_eval =
  deserialize_def deserialize_loop.simps has_def add_def serialize_def Let_def
  push_back_u16s_def

section \<open>Unknown extensions\<close>

lemma make_extension_unknown:
  "code \<notin> set known_codes \<Longrightarrow>
   make_extension status_request r code size' from message_type =
     Unknown_Extension_ctor code r size'"
  by (simp add: make_extension_def known_codes_def)

text \<open>
  C3. A code outside the registry is parsed by \<open>Unknown_Extension\<close>: when the reader
  holds the declared number of bytes, parsing succeeds, the carrier keeps exactly those
  bytes, in order, under its code, and the reader has moved past them; otherwise parsing
  is a decode error. Serializing the parsed carrier fails with \<open>Invalid_State\<close>, for
  either side.
\<close>

theorem unknown_extension_preserved:
  assumes "code \<notin> set known_codes"
  shows "make_extension status_request r code size' from message_type =
           (if unat size' \<le> length r
            then Inr (Unknown_Extension code (take (unat size') r), drop (unat size') r)
            else Inl Decoding_Error)
         \<and> (\<forall>extn r'.
               make_extension status_request r code size' from message_type = Inr (extn, r')
               \<longrightarrow> m_type extn = code \<and> m_value extn = take (unat size') r
                   \<and> length (m_value extn) = unat size'
                   \<and> extn_serialize status_request_serialize extn whoami = Inl Invalid_State)"
  using assms
  by (auto simp: make_extension_unknown Unknown_Extension_ctor_def get_fixed_u8_def
                 get_elem_u8_def)

theorem unknown_extension_preserved_witness:
  "make_extension (\<lambda>r s f m. Inl Decoding_Error :: error + (unit \<times> nat))
     [0xDE, 0xAD, 0xBE, 0xEF] 0xFFAA 4 CLIENT CLIENT_HELLO
     = Inr (Unknown_Extension 0xFFAA [0xDE, 0xAD, 0xBE, 0xEF], [])
   \<and> extn_serialize (\<lambda>c s. Inl Invalid_State)
         (Unknown_Extension 0xFFAA [0xDE, 0xAD, 0xBE, 0xEF] :: unit Extension) SERVER
       = Inl Invalid_State"
  using unknown_extension_preserved
          [of "0xFFAA" "\<lambda>r s f m. Inl Decoding_Error :: error + (unit \<times> nat)"
              "[0xDE, 0xAD, 0xBE, 0xEF]" 4 CLIENT CLIENT_HELLO
              "\<lambda>c s. Inl Invalid_State" SERVER]
  by (simp add: known_codes_def TLSEXT_defs)

section \<open>An empty reader\<close>

text \<open>
  C10. On a reader with no remaining bytes \<open>deserialize\<close> succeeds and leaves the
  container as it is, so a new container has zero extensions: the total-size prefix is
  not read. With one byte remaining it is read, and that is a decode error.
\<close>

theorem deserialize_nothing_remaining:
  "deserialize status_request m_extensions [] from message_type = (None, m_extensions)
   \<and> deserialize status_request [] [] from message_type = (None, [])
   \<and> deserialize status_request m_extensions [b] from message_type
       = (Some Decoding_Error, m_extensions)"
  by (simp add: deserialize_def has_remaining_def get_uint16_t_def)

section \<open>ALPN from a server\<close>

text \<open>
  C5. A server-origin ALPN extension whose number of protocol names is not one is to fail
  with a decode error. At the declared size 0 the code does not: the constructor returns
  before its check of the server's list, and the extension is parsed, without an error,
  into a carrier of no protocol name.
\<close>

theorem alpn_server_size_0_accepted:
  "Application_Layer_Protocol_Notification_ctor r 0 SERVER
     = Inr (Application_Layer_Protocol_Notification [], r)
   \<and> length (m_protocols (Application_Layer_Protocol_Notification [] :: 'c Extension)) \<noteq> 1"
  by (simp add: Application_Layer_Protocol_Notification_ctor_def)

text \<open>For every other declared size the check is reached.\<close>

lemma alpn_server_one_protocol:
  assumes "Application_Layer_Protocol_Notification_ctor r extension_size SERVER
             = Inr (extn, r')"
      and "extension_size \<noteq> 0"
  shows "length (m_protocols extn) = 1"
  using assms
  by (auto simp: Application_Layer_Protocol_Notification_ctor_def
           split: if_splits sum.splits)

section \<open>Supported groups\<close>

lemma groups_loop_wire:
  "groups_loop n r gs0 = Inr (gs, r') \<Longrightarrow>
   \<exists>new. gs = gs0 @ new \<and> length new = n
         \<and> r = concat (map (\<lambda>g. [get_byte_0 g, get_byte_1 g]) new) @ r'"
proof (induction n arbitrary: r gs0)
  case 0
  then show ?case by simp
next
  case (Suc n)
  from Suc.prems obtain w r1 where
    g: "get_uint16_t r = Inr (w, r1)" and rec: "groups_loop n r1 (gs0 @ [w]) = Inr (gs, r')"
    by (auto split: sum.splits)
  from Suc.IH [OF rec] obtain new where
    new: "gs = (gs0 @ [w]) @ new" "length new = n"
         "r1 = concat (map (\<lambda>g. [get_byte_0 g, get_byte_1 g]) new) @ r'"
    by blast
  from g have "r = get_byte_0 w # get_byte_1 w # r1" by (simp add: get_uint16_t_Inr)
  with new have "gs = gs0 @ (w # new) \<and> length (w # new) = Suc n
      \<and> r = concat (map (\<lambda>g. [get_byte_0 g, get_byte_1 g]) (w # new)) @ r'"
    by simp
  then show ?case by blast
qed

lemma ec_groups_loop_filter:
  "ec_groups_loop is_dh gs ec = ec @ filter (\<lambda>g. \<not> is_dh g) gs"
  by (induction gs arbitrary: ec) auto

lemma dh_groups_loop_filter:
  "dh_groups_loop is_dh gs dh = dh @ filter is_dh gs"
  by (induction gs arbitrary: dh) auto

text \<open>
  C9. A parsed \<open>Supported_Groups\<close> carrier stores the groups in wire order: the wire
  bytes are the 2-byte length and then the stored groups, each high byte first, in the
  order of \<open>groups()\<close>. For every carrier, whatever \<open>group_param_is_dh\<close> is,
  \<open>ec_groups()\<close> is the sublist of \<open>groups()\<close> where it is false and \<open>dh_groups()\<close> the
  sublist where it is true, both in stored order, and the two partition \<open>groups()\<close>.
\<close>

theorem supported_groups_order_and_filters:
  fixes extn c :: "'c Extension" and gs :: "Group_Params list"
  defines "c \<equiv> Supported_Groups gs"
  shows
  "(Supported_Groups_ctor r extension_size = Inr (extn, r') \<longrightarrow>
      (\<exists>len. r = [get_byte_0 len, get_byte_1 len]
                   @ concat (map (\<lambda>g. [get_byte_0 g, get_byte_1 g]) (groups extn)) @ r'
             \<and> unat len = 2 * length (groups extn)
             \<and> unat len + 2 = unat extension_size
             \<and> extn = Supported_Groups (groups extn)))
   \<and> groups c = gs
   \<and> ec_groups group_param_is_dh c = filter (\<lambda>g. \<not> group_param_is_dh g) (groups c)
   \<and> dh_groups group_param_is_dh c = filter group_param_is_dh (groups c)
   \<and> mset (ec_groups group_param_is_dh c) + mset (dh_groups group_param_is_dh c)
       = mset (groups c)
   \<and> set (ec_groups group_param_is_dh c) \<inter> set (dh_groups group_param_is_dh c) = {}"
proof -
  have wire: "\<exists>len. r = [get_byte_0 len, get_byte_1 len]
                   @ concat (map (\<lambda>g. [get_byte_0 g, get_byte_1 g]) (groups extn)) @ r'
             \<and> unat len = 2 * length (groups extn)
             \<and> unat len + 2 = unat extension_size
             \<and> extn = Supported_Groups (groups extn)"
    if ok: "Supported_Groups_ctor r extension_size = Inr (extn, r')"
  proof -
    from ok obtain len r1 gs' where
      g: "get_uint16_t r = Inr (len, r1)" and
      sz: "unat len + 2 = unat extension_size" and ev: "unat len mod 2 \<noteq> 1" and
      lp: "groups_loop (unat len div 2) r1 [] = Inr (gs', r')" and
      e: "extn = Supported_Groups gs'"
      by (auto simp: Supported_Groups_ctor_def split: sum.splits if_splits)
    from groups_loop_wire [OF lp] have
      "length gs' = unat len div 2"
      "r1 = concat (map (\<lambda>g. [get_byte_0 g, get_byte_1 g]) gs') @ r'"
      by auto
    moreover from ev have "2 * (unat len div 2) = unat len" by presburger
    moreover from g have "r = get_byte_0 len # get_byte_1 len # r1"
      by (simp add: get_uint16_t_Inr)
    ultimately show ?thesis using sz e by (auto simp: groups_def)
  qed
  have part: "mset (filter (\<lambda>g. \<not> group_param_is_dh g) gs) + mset (filter group_param_is_dh gs)
                = mset gs"
    by (induction gs) auto
  show ?thesis
    using wire part
    by (auto simp: c_def groups_def ec_groups_def dh_groups_def ec_groups_loop_filter
                   dh_groups_loop_filter)
qed

theorem supported_groups_order_and_filters_witness:
  "Supported_Groups_ctor [0, 4, 1, 0, 0, 23] 6
     = Inr (Supported_Groups [256, 23] :: unit Extension, [])
   \<and> ec_groups (\<lambda>g. 256 \<le> g) (Supported_Groups [256, 23] :: unit Extension) = [23]
   \<and> dh_groups (\<lambda>g. 256 \<le> g) (Supported_Groups [256, 23] :: unit Extension) = [256]"
proof -
  have "Supported_Groups_ctor [0, 4, 1, 0, 0, 23] 6
          = Inr (Supported_Groups [256, 23] :: unit Extension, [])"
    by (simp add: reader_eval ctor_eval)
  with supported_groups_order_and_filters
          [of "[0, 4, 1, 0, 0, 23]" 6 "Supported_Groups [256, 23] :: unit Extension" "[]"
              "[256, 23]" "\<lambda>g. 256 \<le> g"]
  show ?thesis by (simp add: groups_def)
qed

section \<open>Uniqueness of the codes\<close>

lemma add_distinct:
  "distinct (map extn_type m) \<Longrightarrow> add m extn = (thrown, m') \<Longrightarrow>
   distinct (map extn_type m')"
  by (auto simp: add_def has_def split: if_splits)

lemma deserialize_loop_distinct:
  "distinct (map extn_type m) \<Longrightarrow>
   deserialize_loop status_request m r from message_type = (thrown, m') \<Longrightarrow>
   distinct (map extn_type m')"
proof (induction status_request m r "from" message_type rule: deserialize_loop.induct)
  case (1 status_request m r "from" message_type)
  show ?case
  proof (cases "\<exists>code r1 size' r2 extn r3 exts.
                  has_remaining r \<and> get_uint16_t r = Inr (code, r1)
                  \<and> get_uint16_t r1 = Inr (size', r2) \<and> \<not> has m code
                  \<and> make_extension status_request r2 code size' from message_type
                       = Inr (extn, r3)
                  \<and> add m extn = (None, exts)")
    case True
    then obtain code r1 size' r2 extn r3 exts where
      h: "has_remaining r" and g1: "get_uint16_t r = Inr (code, r1)" and
      g2: "get_uint16_t r1 = Inr (size', r2)" and nh: "\<not> has m code" and
      mk: "make_extension status_request r2 code size' from message_type = Inr (extn, r3)" and
      ad: "add m extn = (None, exts)"
      by blast
    from h g1 g2 nh mk ad "1.prems"(2) have
      rec: "deserialize_loop status_request exts r3 from message_type = (thrown, m')"
      by (subst (asm) deserialize_loop.simps) simp
    from add_distinct [OF "1.prems"(1) ad] have d: "distinct (map extn_type exts)" .
    from h have nr: "\<not> \<not> has_remaining r" by simp
    show ?thesis
      by (rule "1.IH" [OF nr g1 refl g2 refl nh mk refl ad [symmetric] refl d rec])
  next
    case False
    with "1.prems"(2) have "m' = m"
      by (subst (asm) deserialize_loop.simps)
         (auto split: if_splits sum.splits option.splits prod.splits simp: add_def)
    with "1.prems"(1) show ?thesis by simp
  qed
qed

lemma deserialize_distinct:
  "distinct (map extn_type m) \<Longrightarrow>
   deserialize status_request m r from message_type = (thrown, m') \<Longrightarrow>
   distinct (map extn_type m')"
  by (auto simp: deserialize_def split: if_splits sum.splits
           dest: deserialize_loop_distinct)

lemma reachable_distinct:
  "reachable status_request m \<Longrightarrow> distinct (map extn_type m)"
  by (induction rule: reachable.induct)
     (auto dest: add_distinct deserialize_distinct)

text \<open>
  C4. A container reachable through \<open>add\<close> and \<open>deserialize\<close> holds each code at most
  once: the codes of its carriers are distinct, so \<open>extension_types()\<close> has as many
  elements as the container has carriers. \<open>add\<close> of a carrier whose code is present
  throws \<open>Invalid_Argument\<close> and leaves the container as it was.
\<close>

theorem extensions_codes_unique:
  "(reachable status_request m_extensions \<longrightarrow>
      distinct (map extn_type m_extensions)
      \<and> card (extension_types m_extensions) = length m_extensions)
   \<and> (has m_extensions (extn_type extn) \<longrightarrow>
        add m_extensions extn = (Some Invalid_Argument, m_extensions))"
proof -
  have "card (extension_types m_extensions) = length m_extensions"
    if "distinct (map extn_type m_extensions)"
    using distinct_card [OF that] by (simp add: extension_types_def)
  then show ?thesis
    by (auto simp: add_def dest!: reachable_distinct)
qed

theorem extensions_codes_unique_witness:
  "reachable (\<lambda>r s f m. Inl Decoding_Error)
     [Extended_Master_Secret, Session_Ticket [] :: unit Extension]
   \<and> distinct (map extn_type [Extended_Master_Secret, Session_Ticket [] :: unit Extension])
   \<and> card (extension_types [Extended_Master_Secret, Session_Ticket [] :: unit Extension]) = 2
   \<and> add [Extended_Master_Secret, Session_Ticket [] :: unit Extension] (Session_Ticket [1])
       = (Some Invalid_Argument, [Extended_Master_Secret, Session_Ticket []])"
proof -
  let ?sr = "\<lambda>r s f m. Inl Decoding_Error :: error + (unit \<times> nat)"
  have d: "deserialize ?sr [] [0, 4, 0, 23, 0, 0] CLIENT CLIENT_HELLO
             = (None, [Extended_Master_Secret])"
    by (simp add: reader_eval ctor_eval container_eval)
  have a: "add [Extended_Master_Secret :: unit Extension] (Session_Ticket [])
             = (None, [Extended_Master_Secret, Session_Ticket []])"
    by (simp add: add_def has_def TLSEXT_defs)
  have r: "reachable ?sr [Extended_Master_Secret, Session_Ticket [] :: unit Extension]"
    by (rule reachable.by_add [OF reachable.by_deserialize [OF reachable.new d] a])
  have h: "has [Extended_Master_Secret, Session_Ticket [] :: unit Extension]
             (extn_type (Session_Ticket [1] :: unit Extension))"
    by (simp add: has_def)
  from r h extensions_codes_unique
         [of ?sr "[Extended_Master_Secret, Session_Ticket []]" "Session_Ticket [1]"]
  show ?thesis by simp
qed

section \<open>What the reader's primitives consume\<close>

lemma discard_next_Inr:
  "discard_next r n = Inr r' \<longleftrightarrow> (\<exists>bs. r = bs @ r' \<and> length bs = n)"
proof
  assume "discard_next r n = Inr r'"
  then have "n \<le> length r" "r' = drop n r"
    by (auto simp: discard_next_def split: if_splits)
  then have "r = take n r @ r' \<and> length (take n r) = n" by simp
  then show "\<exists>bs. r = bs @ r' \<and> length bs = n" by blast
next
  assume "\<exists>bs. r = bs @ r' \<and> length bs = n"
  then show "discard_next r n = Inr r'" by (auto simp: discard_next_def)
qed

lemma get_elem_u8_Inr:
  "get_elem_u8 r n = Inr (v, r') \<longleftrightarrow> r = v @ r' \<and> length v = n"
proof
  assume "get_elem_u8 r n = Inr (v, r')"
  then have "n \<le> length r" "v = take n r" "r' = drop n r"
    by (auto simp: get_elem_u8_def split: if_splits)
  then show "r = v @ r' \<and> length v = n" by simp
next
  assume "r = v @ r' \<and> length v = n"
  then show "get_elem_u8 r n = Inr (v, r')" by (auto simp: get_elem_u8_def)
qed

lemma get_uint16_t_Cons [simp]:
  "get_uint16_t (b0 # b1 # r) = Inr (make_uint16 b0 b1, r)"
  by (simp add: get_uint16_t_def)

lemma get_byte_Cons [simp]: "get_byte (b # r) = Inr (b, r)"
  by (simp add: get_byte_def)

lemma get_length_field_1_Inr:
  "get_length_field r (Suc 0) = Inr (n, r') \<longleftrightarrow> (\<exists>b. r = b # r' \<and> n = unat b)"
  by (auto simp: get_length_field_def get_byte_Inr split: sum.splits)

lemma get_length_field_2_Inr:
  "get_length_field r 2 = Inr (n, r') \<longleftrightarrow>
     (\<exists>w. r = get_byte_0 w # get_byte_1 w # r' \<and> n = unat w)"
proof
  assume "get_length_field r 2 = Inr (n, r')"
  then obtain w where "get_uint16_t r = Inr (w, r')" "n = unat w"
    by (auto simp: get_length_field_def split: sum.splits)
  then show "\<exists>w. r = get_byte_0 w # get_byte_1 w # r' \<and> n = unat w"
    by (auto simp: get_uint16_t_Inr)
next
  assume "\<exists>w. r = get_byte_0 w # get_byte_1 w # r' \<and> n = unat w"
  then show "get_length_field r 2 = Inr (n, r')"
    by (auto simp: get_length_field_def)
qed

lemma get_range_u8_1_Inr:
  "get_range_u8 r (Suc 0) lo hi = Inr (v, r') \<longleftrightarrow>
     (\<exists>b. r = b # v @ r' \<and> length v = unat b \<and> lo \<le> length v \<and> length v \<le> hi)"
proof
  assume "get_range_u8 r (Suc 0) lo hi = Inr (v, r')"
  then obtain n r1 where
    l: "get_length_field r (Suc 0) = Inr (n, r1)" and b: "lo \<le> n" "n \<le> hi" and
    e: "get_elem_u8 r1 n = Inr (v, r')"
    by (auto simp: get_range_u8_def get_num_elems_def split: sum.splits if_splits)
  then show "\<exists>b. r = b # v @ r' \<and> length v = unat b \<and> lo \<le> length v \<and> length v \<le> hi"
    by (auto simp: get_length_field_1_Inr get_elem_u8_Inr)
next
  assume "\<exists>b. r = b # v @ r' \<and> length v = unat b \<and> lo \<le> length v \<and> length v \<le> hi"
  then obtain b where r: "r = b # v @ r'" "length v = unat b" "lo \<le> length v" "length v \<le> hi"
    by blast
  then have "get_length_field r (Suc 0) = Inr (length v, v @ r')"
    by (simp add: get_length_field_def)
  with r show "get_range_u8 r (Suc 0) lo hi = Inr (v, r')"
    by (simp add: get_range_u8_def get_num_elems_def get_elem_u8_Inr)
qed

lemma get_range_u8_2_Inr:
  "get_range_u8 r 2 lo hi = Inr (v, r') \<longleftrightarrow>
     (\<exists>w. r = get_byte_0 w # get_byte_1 w # v @ r' \<and> length v = unat w
          \<and> lo \<le> length v \<and> length v \<le> hi)"
proof
  assume "get_range_u8 r 2 lo hi = Inr (v, r')"
  then obtain n r1 where
    l: "get_length_field r 2 = Inr (n, r1)" and b: "lo \<le> n" "n \<le> hi" and
    e: "get_elem_u8 r1 n = Inr (v, r')"
    by (auto simp: get_range_u8_def get_num_elems_def split: sum.splits if_splits)
  then show "\<exists>w. r = get_byte_0 w # get_byte_1 w # v @ r' \<and> length v = unat w
                \<and> lo \<le> length v \<and> length v \<le> hi"
    by (auto simp: get_length_field_2_Inr get_elem_u8_Inr)
next
  assume "\<exists>w. r = get_byte_0 w # get_byte_1 w # v @ r' \<and> length v = unat w
             \<and> lo \<le> length v \<and> length v \<le> hi"
  then obtain w where
    r: "r = get_byte_0 w # get_byte_1 w # v @ r'" "length v = unat w"
       "lo \<le> length v" "length v \<le> hi"
    by blast
  then have "get_length_field r 2 = Inr (length v, v @ r')"
    by (simp add: get_length_field_def)
  with r show "get_range_u8 r 2 lo hi = Inr (v, r')"
    by (simp add: get_range_u8_def get_num_elems_def get_elem_u8_Inr)
qed

lemma unat_add_of_nat_u16:
  "unat (x :: u16) + k < 65536 \<Longrightarrow> unat (x + of_nat k) = unat x + k"
  by (simp add: unat_word_ariths unat_of_nat)

lemma get_string_2_Inr:
  "get_string r 2 lo hi = Inr (v, r') \<longleftrightarrow>
     (\<exists>w. r = get_byte_0 w # get_byte_1 w # v @ r' \<and> length v = unat w
          \<and> lo \<le> length v \<and> length v \<le> hi)"
  by (simp add: get_string_def get_range_u8_2_Inr)


section \<open>Server name\<close>

text \<open>
  Within a block of fewer than 65536 bytes the loop of the constructor, when it ends
  without an error, has read exactly \<open>name_bytes\<close> bytes: the 16-bit counter cannot
  wrap around and come back to 0.
\<close>

lemma sni_loop_exact:
  "sni_loop r name_bytes host = Inr (h, r') \<Longrightarrow> length r < 65536 \<Longrightarrow>
   \<exists>body. r = body @ r' \<and> length body = unat name_bytes"
proof (induction r name_bytes host rule: sni_loop.induct)
  case (1 r name_bytes host)
  show ?case
  proof (cases "name_bytes = 0")
    case True
    with "1.prems" show ?thesis by (simp add: sni_loop.simps)
  next
    case False
    with "1.prems" obtain name_type r1 where g: "get_byte r = Inr (name_type, r1)"
      by (subst (asm) sni_loop.simps) (auto split: sum.splits)
    then have r: "r = name_type # r1" by (simp add: get_byte_Inr)
    show ?thesis
    proof (cases "name_type = 0")
      case True
      with "1.prems" False g obtain h1 r2 where
        s: "get_string r1 2 1 65535 = Inr (h1, r2)" and
        rec: "sni_loop r2 (name_bytes - 1 - of_nat (2 + length h1)) h1 = Inr (h, r')"
        by (subst (asm) sni_loop.simps) (auto split: sum.splits)
      from s obtain w where r1: "r1 = get_byte_0 w # get_byte_1 w # h1 @ r2"
        by (auto simp: get_string_2_Inr)
      with r "1.prems"(2) have "length r2 < 65536" by simp
      from "1.IH"(1) [OF False g refl True s refl rec this] obtain body where
        body: "r2 = body @ r'"
              "length body = unat (name_bytes - 1 - of_nat (2 + length h1))"
        by blast
      define nb' where "nb' = name_bytes - 1 - of_nat (2 + length h1)"
      have nb: "name_bytes = nb' + of_nat (3 + length h1)"
        by (simp add: nb'_def)
      from body r r1 "1.prems"(2) have "unat nb' + (3 + length h1) < 65536"
        by (simp add: nb'_def)
      then have "unat name_bytes = unat nb' + (3 + length h1)"
        unfolding nb by (rule unat_add_of_nat_u16)
      with body r r1 have
        "r = (name_type # get_byte_0 w # get_byte_1 w # h1 @ body) @ r' \<and>
         length (name_type # get_byte_0 w # get_byte_1 w # h1 @ body) = unat name_bytes"
        by (simp add: nb'_def)
      then show ?thesis by blast
    next
      case nz: False
      with "1.prems" False g obtain r2 where
        d: "discard_next r1 (unat (name_bytes - 1)) = Inr r2" and
        rec: "sni_loop r2 0 host = Inr (h, r')"
        by (subst (asm) sni_loop.simps) (auto split: sum.splits)
      from rec have "r' = r2" by (simp add: sni_loop.simps)
      with d obtain bs where bs: "r1 = bs @ r'" "length bs = unat (name_bytes - 1)"
        by (auto simp: discard_next_Inr)
      from False have "unat (name_bytes - 1) = unat name_bytes - 1" "0 < unat name_bytes"
        by (simp_all add: unat_minus_one unat_gt_0)
      with bs r have "r = (name_type # bs) @ r' \<and> length (name_type # bs) = unat name_bytes"
        by simp
      then show ?thesis by blast
    qed
  qed
qed

lemma unat_of_nat_u16: "n < 65536 \<Longrightarrow> unat (of_nat n :: u16) = n"
  by (simp add: unat_of_nat)

lemma unat_of_nat_u8: "n < 256 \<Longrightarrow> unat (of_nat n :: u8) = n"
  by (simp add: unat_of_nat)

lemma get_range_u8_2_encoded:
  assumes "lo \<le> length v" and "length v \<le> hi" and "length v < 65536"
  shows "get_range_u8 (get_byte_0 (of_nat (length v)) # get_byte_1 (of_nat (length v))
                         # v @ r') 2 lo hi = Inr (v, r')"
  unfolding get_range_u8_2_Inr
  by (rule exI [of _ "of_nat (length v)"]) (use assms in \<open>simp add: unat_of_nat_u16\<close>)

lemma get_range_u8_1_encoded:
  assumes "lo \<le> length v" and "length v \<le> hi" and "length v < 256"
  shows "get_range_u8 (of_nat (length v) # v @ r') (Suc 0) lo hi = Inr (v, r')"
  unfolding get_range_u8_1_Inr
  by (rule exI [of _ "of_nat (length v)"]) (use assms in \<open>simp add: unat_of_nat_u8\<close>)

lemma sni_loop_host_name:
  assumes "name_bytes \<noteq> 0" and "1 \<le> length name" and "length name < 65536"
  shows "sni_loop (0 # get_byte_0 (of_nat (length name)) # get_byte_1 (of_nat (length name))
                     # name @ rest) name_bytes host
           = sni_loop rest (name_bytes - 1 - of_nat (2 + length name)) name"
proof -
  from assms(2,3) have
    "get_string (get_byte_0 (of_nat (length name)) # get_byte_1 (of_nat (length name))
                   # name @ rest) 2 1 65535 = Inr (name, rest)"
    unfolding get_string_def by (intro get_range_u8_2_encoded) simp_all
  with assms(1) show ?thesis
    by (subst sni_loop.simps) simp
qed

lemma sni_loop_other_type:
  assumes "name_bytes \<noteq> 0" and "name_type \<noteq> 0" and "length skipped = unat (name_bytes - 1)"
  shows "sni_loop (name_type # skipped @ rest) name_bytes host = Inr (host, rest)"
proof -
  from assms(3) have "discard_next (skipped @ rest) (unat (name_bytes - 1)) = Inr rest"
    by (auto simp: discard_next_Inr)
  with assms(1,2) show ?thesis
    by (subst sni_loop.simps) (simp add: sni_loop.simps [of rest 0])
qed

lemma server_name_ctor_one_name:
  assumes n1: "1 \<le> length name" and n2: "length name + 5 < 65536"
  shows "Server_Name_Indicator_ctor
          (get_byte_0 (of_nat (length name + 3)) # get_byte_1 (of_nat (length name + 3))
             # 0 # get_byte_0 (of_nat (length name)) # get_byte_1 (of_nat (length name))
             # name @ rest)
          (of_nat (length name + 5))
          = Inr (Server_Name_Indicator name, rest)"
proof -
  have u3: "unat (of_nat (length name + 3) :: u16) = length name + 3"
    and u5: "unat (of_nat (length name + 5) :: u16) = length name + 5"
    using n2 by (simp_all only: unat_of_nat_u16)
  from u3 have nz3: "(of_nat (length name + 3) :: u16) \<noteq> 0"
    by (metis add_is_0 unat_0 zero_neq_numeral)
  from u5 have nz5: "(of_nat (length name + 5) :: u16) \<noteq> 0"
    by (metis add_is_0 unat_0 zero_neq_numeral)
  have z: "(of_nat (length name + 3) :: u16) - 1 - of_nat (2 + length name) = 0"
    by simp
  from n1 n2 have
    "sni_loop (0 # get_byte_0 (of_nat (length name)) # get_byte_1 (of_nat (length name))
                 # name @ rest) (of_nat (length name + 3)) []
       = Inr (name, rest)"
    by (subst sni_loop_host_name [OF nz3]) (simp_all add: z sni_loop.simps [of rest 0])
  with u3 u5 nz5 show ?thesis
    by (simp add: Server_Name_Indicator_ctor_def)
qed

text \<open>
  C8, as amended. With declared length 0 the constructor succeeds, reading nothing, and
  keeps no host name. With a declared length above 0, in a block of fewer than 65536
  bytes, it succeeds only if the 2-byte length of the name list plus 2 is the declared
  length, and then it has read exactly the declared length. The loop reads the entries
  of type 0 in turn, each host name (of 1 to 65535 bytes) replacing the one kept so far;
  at an entry of another type it skips the rest of the list and keeps what it has. A body
  of exactly one host name entry is parsed to that name. The number of host names is not
  checked.
\<close>

theorem server_name_parsing:
  fixes extn :: "'c Extension"
  shows
  "Server_Name_Indicator_ctor r 0 = Inr (Server_Name_Indicator [] :: 'c Extension, r)
   \<and> (extension_size \<noteq> 0 \<and> length r < 65536
        \<and> Server_Name_Indicator_ctor r extension_size = Inr (extn, r') \<longrightarrow>
          (\<exists>name_bytes body.
             r = get_byte_0 name_bytes # get_byte_1 name_bytes # body @ r'
             \<and> length body = unat name_bytes
             \<and> unat name_bytes + 2 = unat extension_size))
   \<and> (name_bytes \<noteq> 0 \<and> 1 \<le> length name \<and> length name < 65536 \<longrightarrow>
        sni_loop (0 # get_byte_0 (of_nat (length name)) # get_byte_1 (of_nat (length name))
                    # name @ rest) name_bytes host
          = sni_loop rest (name_bytes - 1 - of_nat (2 + length name)) name)
   \<and> (name_bytes \<noteq> 0 \<and> name_type \<noteq> 0 \<and> length skipped = unat (name_bytes - 1) \<longrightarrow>
        sni_loop (name_type # skipped @ rest) name_bytes host = Inr (host, rest))
   \<and> (1 \<le> length name \<and> length name + 5 < 65536 \<longrightarrow>
        Server_Name_Indicator_ctor
          (get_byte_0 (of_nat (length name + 3)) # get_byte_1 (of_nat (length name + 3))
             # 0 # get_byte_0 (of_nat (length name)) # get_byte_1 (of_nat (length name))
             # name @ rest)
          (of_nat (length name + 5))
          = Inr (Server_Name_Indicator name :: 'c Extension, rest))"
proof -
  have ack: "Server_Name_Indicator_ctor r 0 = Inr (Server_Name_Indicator [], r)"
    by (simp add: Server_Name_Indicator_ctor_def)
  have exact: "\<exists>name_bytes body.
             r = get_byte_0 name_bytes # get_byte_1 name_bytes # body @ r'
             \<and> length body = unat name_bytes
             \<and> unat name_bytes + 2 = unat extension_size"
    if nz: "extension_size \<noteq> 0" and len: "length r < 65536" and
       ok: "Server_Name_Indicator_ctor r extension_size = Inr (extn, r')"
  proof -
    from ok nz obtain name_bytes r1 h where
      g: "get_uint16_t r = Inr (name_bytes, r1)" and
      sz: "unat name_bytes + 2 = unat extension_size" and
      lp: "sni_loop r1 name_bytes [] = Inr (h, r')"
      by (auto simp: Server_Name_Indicator_ctor_def split: sum.splits if_splits)
    from g have r: "r = get_byte_0 name_bytes # get_byte_1 name_bytes # r1"
      by (simp add: get_uint16_t_Inr)
    with len have "length r1 < 65536" by simp
    from sni_loop_exact [OF lp this] r sz show ?thesis by auto
  qed
  note one = server_name_ctor_one_name [of name rest]
  from ack exact one show ?thesis
    using sni_loop_host_name [of name_bytes name rest host]
          sni_loop_other_type [of name_bytes name_type skipped rest host]
    by blast
qed

text \<open>
  C8, as stated, fails: a client-form extension whose list is empty, and one whose list
  carries two host names, are both parsed without an error.
\<close>

theorem server_name_not_exactly_one:
  "Server_Name_Indicator_ctor [0, 0] 2 = Inr (Server_Name_Indicator [] :: unit Extension, [])
   \<and> Server_Name_Indicator_ctor [0, 8, 0, 0, 1, 0x61, 0, 0, 1, 0x62] 10
       = Inr (Server_Name_Indicator [0x62] :: unit Extension, [])"
  by (simp add: reader_eval ctor_eval)

theorem server_name_parsing_witness:
  "Server_Name_Indicator_ctor [0, 5, 0, 0, 2, 0x65, 0x78] 7
     = Inr (Server_Name_Indicator [0x65, 0x78] :: unit Extension, [])
   \<and> sni_loop [7, 1, 2] 3 [] = Inr ([], [])"
  using server_name_parsing
         [where name = "[0x65, 0x78]" and rest = "[]" and name_bytes = 3 and name_type = 7
            and skipped = "[1, 2]" and host = "[]" and r = "[]" and extension_size = 1
            and extn = "Server_Name_Indicator [] :: unit Extension" and r' = "[]"]
  by (simp add: get_byte_0_def get_byte_1_def)

section \<open>Point formats\<close>

lemma point_formats_loop_first:
  "point_formats_loop k r p = Inr (p', r') \<Longrightarrow>
   \<exists>formats. r = formats @ r' \<and> length formats = k
     \<and> p' = (case find recognized_format formats of
                None \<Rightarrow> p
              | Some format \<Rightarrow> format = ANSIX962_COMPRESSED_PRIME)"
proof (induction k arbitrary: r)
  case 0
  then show ?case by simp
next
  case (Suc k)
  from Suc.prems obtain format r1 where g: "get_byte r = Inr (format, r1)"
    by (auto split: sum.splits)
  then have r: "r = format # r1" by (simp add: get_byte_Inr)
  have ne: "UNCOMPRESSED \<noteq> ANSIX962_COMPRESSED_PRIME"
    by (simp add: UNCOMPRESSED_def ANSIX962_COMPRESSED_PRIME_def)
  show ?case
  proof (cases "recognized_format format")
    case True
    with Suc.prems g ne have
      d: "discard_next r1 k = Inr r'" and p': "p' = (format = ANSIX962_COMPRESSED_PRIME)"
      by (auto simp: recognized_format_def split: sum.splits if_splits)
    from d obtain bs where "r1 = bs @ r'" "length bs = k"
      by (auto simp: discard_next_Inr)
    with r True p' have
      "r = (format # bs) @ r' \<and> length (format # bs) = Suc k
       \<and> p' = (case find recognized_format (format # bs) of
                  None \<Rightarrow> p
                | Some format \<Rightarrow> format = ANSIX962_COMPRESSED_PRIME)"
      by simp
    then show ?thesis by blast
  next
    case False
    with Suc.prems g have rec: "point_formats_loop k r1 p = Inr (p', r')"
      by (auto simp: recognized_format_def split: sum.splits if_splits)
    from Suc.IH [OF rec] obtain formats where
      "r1 = formats @ r'" "length formats = k"
      "p' = (case find recognized_format formats of
               None \<Rightarrow> p
             | Some format \<Rightarrow> format = ANSIX962_COMPRESSED_PRIME)"
      by blast
    with r False have
      "r = (format # formats) @ r' \<and> length (format # formats) = Suc k
       \<and> p' = (case find recognized_format (format # formats) of
                  None \<Rightarrow> p
                | Some format \<Rightarrow> format = ANSIX962_COMPRESSED_PRIME)"
      by simp
    then show ?thesis by blast
  qed
qed

text \<open>
  C7, as amended. A successfully parsed \<open>ec_point_formats\<close> extension is a length byte
  and a list of that many formats, together as long as the declared size. The first
  format of the list that is recognized (uncompressed or compressed-prime) determines
  the compressed-preference flag: it is set exactly when that format is compressed-prime,
  and it keeps its initial value when no format of the list is recognized. The list is
  not required to hold the uncompressed format; the serializer sends it for either value
  of the flag.
\<close>

theorem point_formats_first_recognized:
  fixes extn :: "'c Extension"
  shows
  "(Supported_Point_Formats_ctor r extension_size = Inr (extn, r') \<longrightarrow>
      (\<exists>len formats.
         r = len # formats @ r' \<and> length formats = unat len
         \<and> unat len + 1 = unat extension_size
         \<and> extn = Supported_Point_Formats
                    (case find recognized_format formats of
                       None \<Rightarrow> m_prefers_compressed_initial
                     | Some format \<Rightarrow> format = ANSIX962_COMPRESSED_PRIME)))
   \<and> (\<exists>payload. extn_serialize status_request_serialize
                     (Supported_Point_Formats prefers_compressed :: 'c Extension) whoami
                   = Inr payload
                 \<and> UNCOMPRESSED \<in> set (tl payload))"
proof -
  have parse: "\<exists>len formats.
         r = len # formats @ r' \<and> length formats = unat len
         \<and> unat len + 1 = unat extension_size
         \<and> extn = Supported_Point_Formats
                    (case find recognized_format formats of
                       None \<Rightarrow> m_prefers_compressed_initial
                     | Some format \<Rightarrow> format = ANSIX962_COMPRESSED_PRIME)"
    if ok: "Supported_Point_Formats_ctor r extension_size = Inr (extn, r')"
  proof -
    from ok obtain len r1 p' where
      g: "get_byte r = Inr (len, r1)" and sz: "unat len + 1 = unat extension_size" and
      lp: "point_formats_loop (unat len) r1 m_prefers_compressed_initial = Inr (p', r')" and
      e: "extn = Supported_Point_Formats p'"
      by (auto simp: Supported_Point_Formats_ctor_def split: sum.splits if_splits)
    from point_formats_loop_first [OF lp] g sz e show ?thesis
      by (auto simp: get_byte_Inr)
  qed
  have ser: "\<exists>payload. extn_serialize status_request_serialize
                     (Supported_Point_Formats prefers_compressed :: 'c Extension) whoami
                   = Inr payload
                 \<and> UNCOMPRESSED \<in> set (tl payload)"
    by (cases prefers_compressed) simp_all
  from parse ser show ?thesis by blast
qed

theorem point_formats_first_recognized_witness:
  "Supported_Point_Formats_ctor [3, 2, 1, 0] 4
     = Inr (Supported_Point_Formats True :: unit Extension, [])
   \<and> find recognized_format [2, 1, 0] = Some ANSIX962_COMPRESSED_PRIME"
proof -
  have p: "Supported_Point_Formats_ctor [3, 2, 1, 0] 4
             = Inr (Supported_Point_Formats True :: unit Extension, [])"
    by (simp add: reader_eval ctor_eval)
  have f: "find recognized_format [2, 1, 0] = Some ANSIX962_COMPRESSED_PRIME"
    by (simp add: recognized_format_def UNCOMPRESSED_def ANSIX962_COMPRESSED_PRIME_def)
  from point_formats_first_recognized
         [where r = "[3, 2, 1, 0]" and extension_size = 4 and r' = "[]"
            and extn = "Supported_Point_Formats True :: unit Extension"]
       p f
  show ?thesis by simp
qed

text \<open>
  C7, as stated, fails: a list that holds the compressed-prime format alone is parsed
  without an error, and the uncompressed format does not appear in it.
\<close>

theorem point_formats_without_uncompressed:
  "Supported_Point_Formats_ctor [1, ANSIX962_COMPRESSED_PRIME] 2
     = Inr (Supported_Point_Formats True :: unit Extension, [])
   \<and> UNCOMPRESSED \<notin> set [ANSIX962_COMPRESSED_PRIME]"
  by (simp add: reader_eval ctor_eval)

section \<open>What \<open>serialize\<close> writes\<close>

lemma serialize_loop_Inr:
  "serialize_loop se ss whoami extns buf = Inr out \<longleftrightarrow>
     (\<exists>payloads.
        list_all2 (\<lambda>extn payload. extn_serialize ss extn whoami = Inr payload)
          (written se extns) payloads
        \<and> out = buf @ concat (map2 (\<lambda>extn payload. wire_extension (extn_type extn) payload)
                                 (written se extns) payloads))"
proof (induction extns arbitrary: buf)
  case Nil
  then show ?case by (auto simp: written_def)
next
  case (Cons extn extns)
  show ?case
  proof (cases "extn_empty se extn")
    case True
    with Cons.IH [of buf] show ?thesis by (simp add: written_def)
  next
    case False
    show ?thesis
    proof (cases "extn_serialize ss extn whoami")
      case (Inl e)
      with False show ?thesis by (auto simp: written_def list_all2_Cons1)
    next
      case (Inr extn_val)
      with False
        Cons.IH [of "buf @ [get_byte_0 (extn_type extn), get_byte_1 (extn_type extn),
                            get_byte_0 (of_nat (length extn_val)),
                            get_byte_1 (of_nat (length extn_val))] @ extn_val"]
      show ?thesis
        by (auto simp: written_def list_all2_Cons1 wire_extension_def)
    qed
  qed
qed

lemma wire_extensions_empty:
  "length xs = length ps \<Longrightarrow>
   concat (map2 (\<lambda>extn payload. wire_extension (extn_type extn) payload) xs ps) = []
     \<longleftrightarrow> ps = []"
  by (cases xs; cases ps) (auto simp: wire_extension_def)

text \<open>
  C6, as amended. \<open>serialize\<close> returns a byte sequence exactly when the serializer of
  every carrier that does not declare itself empty returns one. It then has written one
  (code, payload length, payload) triple for each of those carriers, in the order of the
  container, also when the payload has length 0, and none for the others. When no triple
  was written it returns the empty byte sequence; otherwise the triples after the 2-byte
  length of all of them. It never returns a block of the two bytes 0 0.
\<close>

theorem serialize_writes:
  "(serialize status_request_empty status_request_serialize m_extensions whoami = Inr out
      \<longleftrightarrow>
      (\<exists>payloads.
         list_all2
           (\<lambda>extn payload. extn_serialize status_request_serialize extn whoami = Inr payload)
           (written status_request_empty m_extensions) payloads
         \<and> out =
            (if payloads = [] then []
             else [get_byte_0 (of_nat (length (concat
                     (map2 (\<lambda>extn payload. wire_extension (extn_type extn) payload)
                        (written status_request_empty m_extensions) payloads)))),
                   get_byte_1 (of_nat (length (concat
                     (map2 (\<lambda>extn payload. wire_extension (extn_type extn) payload)
                        (written status_request_empty m_extensions) payloads))))]
                  @ concat (map2 (\<lambda>extn payload. wire_extension (extn_type extn) payload)
                              (written status_request_empty m_extensions) payloads))))
   \<and> serialize status_request_empty status_request_serialize m_extensions whoami
       \<noteq> Inr [0, 0]"
proof -
  let ?P = "\<lambda>extn payload. extn_serialize status_request_serialize extn whoami = Inr payload"
  let ?w = "written status_request_empty m_extensions"
  let ?body = "\<lambda>payloads.
     concat (map2 (\<lambda>extn payload. wire_extension (extn_type extn) payload) ?w payloads)"
  let ?out = "\<lambda>payloads.
     if payloads = [] then []
     else [get_byte_0 (of_nat (length (?body payloads))),
           get_byte_1 (of_nat (length (?body payloads)))] @ ?body payloads"
  have fin: "serialize status_request_empty status_request_serialize m_extensions whoami
               = Inr (?out ps)"
    if all: "list_all2 ?P ?w ps" for ps
  proof -
    define body where "body = ?body ps"
    from all have "length ?w = length ps" by (rule list_all2_lengthD)
    from wire_extensions_empty [OF this] have e: "body = [] \<longleftrightarrow> ps = []"
      by (simp add: body_def)
    from all have
      "serialize_loop status_request_empty status_request_serialize whoami
         m_extensions [0, 0] = Inr (0 # 0 # body)"
      unfolding serialize_loop_Inr body_def by auto
    then have "serialize status_request_empty status_request_serialize m_extensions whoami
                 = Inr (if body = [] then []
                        else get_byte_0 (of_nat (length body))
                               # get_byte_1 (of_nat (length body)) # body)"
      by (simp add: serialize_def Let_def)
    with e show ?thesis by (simp add: body_def)
  qed
  have iff: "serialize status_request_empty status_request_serialize m_extensions whoami
               = Inr out'
             \<longleftrightarrow> (\<exists>payloads. list_all2 ?P ?w payloads \<and> out' = ?out payloads)"
    for out'
  proof
    assume s: "serialize status_request_empty status_request_serialize m_extensions whoami
                 = Inr out'"
    then obtain buf where
      "serialize_loop status_request_empty status_request_serialize whoami
         m_extensions [0, 0] = Inr buf"
      by (auto simp: serialize_def split: sum.splits)
    then obtain ps where ps: "list_all2 ?P ?w ps"
      unfolding serialize_loop_Inr by blast
    from fin [OF ps] s have "out' = ?out ps" by simp
    with ps show "\<exists>payloads. list_all2 ?P ?w payloads \<and> out' = ?out payloads" by blast
  next
    assume "\<exists>payloads. list_all2 ?P ?w payloads \<and> out' = ?out payloads"
    then obtain ps where ps: "list_all2 ?P ?w ps" "out' = ?out ps" by blast
    from fin [OF ps(1)] ps(2)
    show "serialize status_request_empty status_request_serialize m_extensions whoami
            = Inr out'"
      by simp
  qed
  have "serialize status_request_empty status_request_serialize m_extensions whoami
          \<noteq> Inr [0, 0]"
  proof
    assume "serialize status_request_empty status_request_serialize m_extensions whoami
              = Inr [0, 0]"
    then obtain ps where ps: "list_all2 ?P ?w ps" "[0, 0] = ?out ps"
      unfolding iff by blast
    from ps(1) have "length ?w = length ps" by (rule list_all2_lengthD)
    from wire_extensions_empty [OF this] ps(2) show False
      by (auto split: if_splits)
  qed
  with iff [of out] show ?thesis by blast
qed

text \<open>
  C6, as stated, fails: the marker \<open>Extended_Master_Secret\<close> has an empty payload, and
  \<open>serialize\<close> writes its triple, with payload length 0.
\<close>

theorem serialize_writes_empty_payload:
  "extn_serialize (\<lambda>c s. Inl Invalid_State) (Extended_Master_Secret :: unit Extension) CLIENT
     = Inr []
   \<and> serialize (\<lambda>c. False) (\<lambda>c s. Inl Invalid_State)
        [Extended_Master_Secret :: unit Extension] CLIENT
       = Inr [0, 4, 0, 23, 0, 0]"
  by (simp add: reader_eval ctor_eval container_eval)

theorem serialize_writes_witness:
  "serialize (\<lambda>c. False) (\<lambda>c s. Inl Invalid_State)
     [Application_Layer_Protocol_Notification [], Session_Ticket [7] :: unit Extension] SERVER
     = Inr [0, 5, 0, 35, 0, 1, 7]"
proof -
  let ?m = "[Application_Layer_Protocol_Notification [], Session_Ticket [7] :: unit Extension]"
  have w: "written (\<lambda>c. False) ?m = [Session_Ticket [7]]"
    by (simp add: written_def)
  have "\<exists>payloads.
         list_all2
           (\<lambda>extn payload. extn_serialize (\<lambda>c s. Inl Invalid_State) extn SERVER = Inr payload)
           (written (\<lambda>c. False) ?m) payloads
         \<and> [0, 5, 0, 35, 0, 1, 7] =
            (if payloads = [] then []
             else [get_byte_0 (of_nat (length (concat
                     (map2 (\<lambda>extn payload. wire_extension (extn_type extn) payload)
                        (written (\<lambda>c. False) ?m) payloads)))),
                   get_byte_1 (of_nat (length (concat
                     (map2 (\<lambda>extn payload. wire_extension (extn_type extn) payload)
                        (written (\<lambda>c. False) ?m) payloads))))]
                  @ concat (map2 (\<lambda>extn payload. wire_extension (extn_type extn) payload)
                              (written (\<lambda>c. False) ?m) payloads))"
    unfolding w
    by (rule exI [of _ "[[7]]"])
       (simp add: wire_extension_def TLSEXT_defs get_byte_0_def get_byte_1_def)
  with serialize_writes
         [of "\<lambda>c. False" "\<lambda>c s. Inl Invalid_State" ?m SERVER "[0, 5, 0, 35, 0, 1, 7]"]
  show ?thesis by blast
qed

section \<open>Every constructor reads what the declared size says\<close>

lemma store_be_u16_simps [simp]:
  "store_be_u16 [] = []"
  "store_be_u16 (x # xs) = get_byte_0 x # get_byte_1 x # store_be_u16 xs"
  "store_be_u16 (xs @ ys) = store_be_u16 xs @ store_be_u16 ys"
  by (simp_all add: store_be_u16_def)

lemma length_store_be_u16 [simp]: "length (store_be_u16 xs) = 2 * length xs"
  by (induction xs) simp_all

lemma load_store_be_u16 [simp]: "load_be_u16 (store_be_u16 xs) = xs"
  by (induction xs) simp_all

lemma store_load_be_u16:
  "even (length bs) \<Longrightarrow> store_be_u16 (load_be_u16 bs) = bs"
  by (induction bs rule: load_be_u16.induct) simp_all

lemma length_load_be_u16: "length (load_be_u16 bs) = length bs div 2"
  by (induction bs rule: load_be_u16.induct) simp_all

lemma get_elem_u16_Inr:
  "get_elem_u16 r n = Inr (v, r') \<longleftrightarrow> r = store_be_u16 v @ r' \<and> length v = n"
proof
  assume "get_elem_u16 r n = Inr (v, r')"
  then have l: "2 * n \<le> length r" and v: "v = load_be_u16 (take (2 * n) r)"
    and r': "r' = drop (2 * n) r"
    by (auto simp: get_elem_u16_def split: if_splits)
  from l have "even (length (take (2 * n) r))" by simp
  from store_load_be_u16 [OF this] v r' l
  show "r = store_be_u16 v @ r' \<and> length v = n"
    by (simp add: length_load_be_u16)
next
  assume "r = store_be_u16 v @ r' \<and> length v = n"
  then show "get_elem_u16 r n = Inr (v, r')"
    by (auto simp: get_elem_u16_def)
qed

lemma get_range_u16_2_Inr:
  "get_range_u16 r 2 lo hi = Inr (v, r') \<longleftrightarrow>
     (\<exists>w. r = get_byte_0 w # get_byte_1 w # store_be_u16 v @ r' \<and> unat w = 2 * length v
          \<and> lo \<le> length v \<and> length v \<le> hi)"
proof
  assume "get_range_u16 r 2 lo hi = Inr (v, r')"
  then obtain n r1 where
    l: "get_length_field r 2 = Inr (n, r1)" and m: "n mod 2 = 0" and
    b: "lo \<le> n div 2" "n div 2 \<le> hi" and
    e: "get_elem_u16 r1 (n div 2) = Inr (v, r')"
    by (auto simp: get_range_u16_def get_num_elems_def split: sum.splits if_splits)
  from m have "2 * (n div 2) = n" by presburger
  with l b e show "\<exists>w. r = get_byte_0 w # get_byte_1 w # store_be_u16 v @ r'
                \<and> unat w = 2 * length v \<and> lo \<le> length v \<and> length v \<le> hi"
    by (auto simp: get_length_field_2_Inr get_elem_u16_Inr)
next
  assume "\<exists>w. r = get_byte_0 w # get_byte_1 w # store_be_u16 v @ r' \<and> unat w = 2 * length v
             \<and> lo \<le> length v \<and> length v \<le> hi"
  then obtain w where
    r: "r = get_byte_0 w # get_byte_1 w # store_be_u16 v @ r'" "unat w = 2 * length v"
       "lo \<le> length v" "length v \<le> hi"
    by blast
  then have "get_length_field r 2 = Inr (2 * length v, store_be_u16 v @ r')"
    by (simp add: get_length_field_def)
  with r show "get_range_u16 r 2 lo hi = Inr (v, r')"
    by (simp add: get_range_u16_def get_num_elems_def get_elem_u16_Inr)
qed

lemma get_range_u16_1_Inr:
  "get_range_u16 r (Suc 0) lo hi = Inr (v, r') \<longleftrightarrow>
     (\<exists>b. r = b # store_be_u16 v @ r' \<and> unat b = 2 * length v
          \<and> lo \<le> length v \<and> length v \<le> hi)"
proof
  assume "get_range_u16 r (Suc 0) lo hi = Inr (v, r')"
  then obtain n r1 where
    l: "get_length_field r (Suc 0) = Inr (n, r1)" and m: "n mod 2 = 0" and
    b: "lo \<le> n div 2" "n div 2 \<le> hi" and
    e: "get_elem_u16 r1 (n div 2) = Inr (v, r')"
    by (auto simp: get_range_u16_def get_num_elems_def split: sum.splits if_splits)
  from m have "2 * (n div 2) = n" by presburger
  with l b e show "\<exists>b. r = b # store_be_u16 v @ r'
                \<and> unat b = 2 * length v \<and> lo \<le> length v \<and> length v \<le> hi"
    by (auto simp: get_length_field_1_Inr get_elem_u16_Inr)
next
  assume "\<exists>b. r = b # store_be_u16 v @ r' \<and> unat b = 2 * length v
             \<and> lo \<le> length v \<and> length v \<le> hi"
  then obtain b where
    r: "r = b # store_be_u16 v @ r'" "unat b = 2 * length v"
       "lo \<le> length v" "length v \<le> hi"
    by blast
  then have "get_length_field r (Suc 0) = Inr (2 * length v, store_be_u16 v @ r')"
    by (simp add: get_length_field_def)
  with r show "get_range_u16 r (Suc 0) lo hi = Inr (v, r')"
    by (simp add: get_range_u16_def get_num_elems_def get_elem_u16_Inr)
qed



section \<open>Every error of a constructor is a decode error\<close>
















lemma unat_u8_less: "unat (b :: u8) < 256"
  by (rule order_less_le_trans [OF unsigned_less]) simp




section \<open>Duplicate codes on the wire\<close>


lemma has_append: "has (m @ [extn]) code \<longleftrightarrow> has m code \<or> extn_type extn = code"
  by (auto simp: has_def)






section \<open>Round trip\<close>

text \<open>What the serializers' loops write.\<close>

lemma push_back_u16s_eq: "push_back_u16s buf xs = buf @ store_be_u16 xs"
  unfolding push_back_u16s_def
  by (induction xs arbitrary: buf) simp_all

lemma groups_serialize_loop_eq:
  "0 \<notin> set gs \<Longrightarrow>
   foldl (\<lambda>b g. if 0 < g then b @ [get_byte_0 g, get_byte_1 g] else b) buf gs
     = buf @ store_be_u16 gs"
  for gs :: "u16 list"
  by (induction gs arbitrary: buf) (auto simp: word_gt_0)

lemma alpn_serialize_loop_eq:
  "\<forall>p \<in> set ps. p \<noteq> [] \<and> length p < 256 \<Longrightarrow>
   alpn_serialize_loop ps buf = Inr (buf @ concat (map (\<lambda>p. of_nat (length p) # p) ps))"
  by (induction ps arbitrary: buf) (auto simp: append_tls_length_value_def)

text \<open>What the constructors' loops read back.\<close>

lemma groups_loop_encoded:
  "groups_loop (length gs) (store_be_u16 gs @ rest) gs0 = Inr (gs0 @ gs, rest)"
  by (induction gs arbitrary: gs0) simp_all

lemma schemes_loop_encoded:
  "2 * length ss < 65536 \<Longrightarrow>
   schemes_loop (store_be_u16 ss @ rest) (of_nat (2 * length ss)) ss0 = Inr (ss0 @ ss, rest)"
proof (induction ss arbitrary: ss0)
  case Nil
  then show ?case by (simp add: schemes_loop.simps)
next
  case (Cons s ss)
  from Cons.prems have "unat (of_nat (2 * length (s # ss)) :: u16) = 2 * length (s # ss)"
    by (intro unat_of_nat_u16)
  then have nz: "(of_nat (2 * length (s # ss)) :: u16) \<noteq> 0"
    by (metis length_Cons mult_is_0 nat.distinct(1) unat_0 zero_neq_numeral)
  have step: "(of_nat (2 * length (s # ss)) :: u16) - 2 = of_nat (2 * length ss)"
    by simp
  from Cons.prems have "2 * length ss < 65536" by simp
  from Cons.IH [OF this, of "ss0 @ [s]"] nz step show ?case
    by (subst schemes_loop.simps) simp
qed

lemma alpn_loop_encoded:
  "\<forall>p \<in> set ps. p \<noteq> [] \<and> length p < 256 \<Longrightarrow>
   alpn_loop (concat (map (\<lambda>p. of_nat (length p) # p) ps) @ rest)
     (length (concat (map (\<lambda>p. of_nat (length p) # p) ps))) ps0
     = Inr (ps0 @ ps, rest)"
proof (induction ps arbitrary: ps0)
  case Nil
  then show ?case by (simp add: alpn_loop.simps)
next
  case (Cons p ps)
  from Cons.prems have p: "p \<noteq> []" "length p < 256" by simp_all
  then have g: "get_string (of_nat (length p) # p
                  @ concat (map (\<lambda>p. of_nat (length p) # p) ps) @ rest) 1 0 255
                  = Inr (p, concat (map (\<lambda>p. of_nat (length p) # p) ps) @ rest)"
    unfolding get_string_def One_nat_def
    by (intro get_range_u8_1_encoded) simp_all
  from Cons.prems have "\<forall>p \<in> set ps. p \<noteq> [] \<and> length p < 256" by simp
  from Cons.IH [OF this, of "ps0 @ [p]"] g p show ?case
    by (subst alpn_loop.simps) simp
qed

lemma make_extension_known:
  "make_extension sr r TLSEXT_SERVER_NAME_INDICATION s f m = Server_Name_Indicator_ctor r s"
  "make_extension sr r TLSEXT_SUPPORTED_GROUPS s f m = Supported_Groups_ctor r s"
  "make_extension sr r TLSEXT_EC_POINT_FORMATS s f m = Supported_Point_Formats_ctor r s"
  "make_extension sr r TLSEXT_SAFE_RENEGOTIATION s f m = Renegotiation_Extension_ctor r s"
  "make_extension sr r TLSEXT_SIGNATURE_ALGORITHMS s f m = Signature_Algorithms_ctor r s"
  "make_extension sr r TLSEXT_USE_SRTP s f m = SRTP_Protection_Profiles_ctor r s"
  "make_extension sr r TLSEXT_ALPN s f m = Application_Layer_Protocol_Notification_ctor r s f"
  "make_extension sr r TLSEXT_EXTENDED_MASTER_SECRET s f m = Extended_Master_Secret_ctor r s"
  "make_extension sr r TLSEXT_ENCRYPT_THEN_MAC s f m = Encrypt_then_MAC_ctor r s"
  "make_extension sr r TLSEXT_SESSION_TICKET s f m = Session_Ticket_ctor r s"
  "make_extension sr r TLSEXT_SUPPORTED_VERSIONS s f m = Supported_Versions_ctor r s f"
  by (simp_all add: make_extension_def TLSEXT_defs)

lemma length_concat_prefixed:
  "length (concat (map (\<lambda>p. of_nat (length p) # p) ps)) = length (concat ps) + length ps"
  by (induction ps) simp_all

text \<open>
  A faithful carrier is not skipped, its serializer returns a payload that fits 16 bits,
  and the constructor for its code reads that payload back into the same carrier,
  whatever follows it.
\<close>

lemma wire_faithful_server_name:
  fixes extn :: "'c Extension"
  assumes e: "extn = Server_Name_Indicator host" and f: "wire_faithful whoami extn"
  shows "\<exists>payload.
           extn_serialize ss extn whoami = Inr payload
           \<and> length payload < 65536
           \<and> \<not> extn_empty se extn
           \<and> (\<forall>rest. make_extension sr (payload @ rest) (extn_type extn)
                       (of_nat (length payload)) whoami mt = Inr (extn, rest))"
proof -
  from e f have h: "1 \<le> length host" "length host + 5 < 65536" by simp_all
  let ?p = "[get_byte_0 (of_nat (length host + 3)), get_byte_1 (of_nat (length host + 3)), 0,
             get_byte_0 (of_nat (length host)), get_byte_1 (of_nat (length host))] @ host"
  have l: "length ?p = length host + 5" by simp
  have s: "extn_serialize ss extn whoami = Inr ?p" by (simp add: e)
  have m: "make_extension sr (?p @ rest) (extn_type extn) (of_nat (length ?p)) whoami mt
             = Inr (extn, rest)" for rest
    unfolding l e extn_type.simps make_extension_known
    using server_name_ctor_one_name [OF h, of rest] by simp
  from h have "length ?p < 65536" by simp
  with s m show ?thesis unfolding e extn_empty.simps by blast
qed

lemma wire_faithful_supported_groups:
  fixes extn :: "'c Extension"
  assumes e: "extn = Supported_Groups gs" and f: "wire_faithful whoami extn"
  shows "\<exists>payload.
           extn_serialize ss extn whoami = Inr payload
           \<and> length payload < 65536
           \<and> \<not> extn_empty se extn
           \<and> (\<forall>rest. make_extension sr (payload @ rest) (extn_type extn)
                       (of_nat (length payload)) whoami mt = Inr (extn, rest))"
proof -
  from e f have g: "gs \<noteq> []" "0 \<notin> set gs" "length gs \<le> 32766" by simp_all
  define len :: u16 where "len = of_nat (2 * length gs)"
  let ?p = "get_byte_0 len # get_byte_1 len # store_be_u16 gs"
  from g have ul: "unat len = 2 * length gs"
    unfolding len_def by (intro unat_of_nat_u16) simp
  have l: "length ?p = 2 * length gs + 2" by simp
  from g have us: "unat (of_nat (2 * length gs + 2) :: u16) = 2 * length gs + 2"
    by (intro unat_of_nat_u16) simp
  have s: "extn_serialize ss extn whoami = Inr ?p"
    using g(2) by (simp add: e groups_serialize_loop_eq Let_def len_def)
  have m: "make_extension sr (?p @ rest) (extn_type extn) (of_nat (length ?p)) whoami mt
             = Inr (extn, rest)" for rest
    unfolding l e extn_type.simps make_extension_known
    using ul us groups_loop_encoded [of gs rest "[]"]
    by (simp add: Supported_Groups_ctor_def)
  from g have "length ?p < 65536" by simp
  with s m g(1) show ?thesis unfolding e extn_empty.simps by blast
qed

lemma wire_faithful_point_formats:
  fixes extn :: "'c Extension"
  assumes e: "extn = Supported_Point_Formats p" and f: "wire_faithful whoami extn"
  shows "\<exists>payload.
           extn_serialize ss extn whoami = Inr payload
           \<and> length payload < 65536
           \<and> \<not> extn_empty se extn
           \<and> (\<forall>rest. make_extension sr (payload @ rest) (extn_type extn)
                       (of_nat (length payload)) whoami mt = Inr (extn, rest))"
proof (cases p)
  case True
  have "make_extension sr ([2, ANSIX962_COMPRESSED_PRIME, UNCOMPRESSED] @ rest)
          (extn_type extn) (of_nat (length [2, ANSIX962_COMPRESSED_PRIME, UNCOMPRESSED]))
          whoami mt = Inr (extn, rest)" for rest
    unfolding e extn_type.simps make_extension_known
    by (simp add: True Supported_Point_Formats_ctor_def point_formats_loop_unfold
                  discard_next_def UNCOMPRESSED_def ANSIX962_COMPRESSED_PRIME_def)
  then show ?thesis
    by (intro exI [of _ "[2, ANSIX962_COMPRESSED_PRIME, UNCOMPRESSED]"]) (simp add: e True)
next
  case False
  have "make_extension sr ([1, UNCOMPRESSED] @ rest)
          (extn_type extn) (of_nat (length [1, UNCOMPRESSED])) whoami mt
          = Inr (extn, rest)" for rest
    unfolding e extn_type.simps make_extension_known
    by (simp add: False Supported_Point_Formats_ctor_def point_formats_loop_unfold
                  discard_next_def UNCOMPRESSED_def)
  then show ?thesis
    by (intro exI [of _ "[1, UNCOMPRESSED]"]) (simp add: e False)
qed

lemma wire_faithful_renegotiation:
  fixes extn :: "'c Extension"
  assumes e: "extn = Renegotiation_Extension d" and f: "wire_faithful whoami extn"
  shows "\<exists>payload.
           extn_serialize ss extn whoami = Inr payload
           \<and> length payload < 65536
           \<and> \<not> extn_empty se extn
           \<and> (\<forall>rest. make_extension sr (payload @ rest) (extn_type extn)
                       (of_nat (length payload)) whoami mt = Inr (extn, rest))"
proof -
  from e f have d: "length d \<le> 255" by simp
  let ?p = "of_nat (length d) # d"
  have l: "length ?p = length d + 1" by simp
  from d have us: "unat (of_nat (length d + 1) :: u16) = length d + 1"
    by (intro unat_of_nat_u16) simp
  have s: "extn_serialize ss extn whoami = Inr ?p"
    using d by (simp add: e append_tls_length_value_def)
  from d have g: "get_range_u8 (?p @ rest) 1 0 255 = Inr (d, rest)" for rest
    using get_range_u8_1_encoded [of 0 d 255 rest] by simp
  have m: "make_extension sr (?p @ rest) (extn_type extn) (of_nat (length ?p)) whoami mt
             = Inr (extn, rest)" for rest
    unfolding l e extn_type.simps make_extension_known Renegotiation_Extension_ctor_def
    using us g [of rest] by simp
  from d have "length ?p < 65536" by simp
  with s m show ?thesis unfolding e extn_empty.simps by blast
qed

lemma wire_faithful_signature_algorithms:
  fixes extn :: "'c Extension"
  assumes e: "extn = Signature_Algorithms schemes" and f: "wire_faithful whoami extn"
  shows "\<exists>payload.
           extn_serialize ss extn whoami = Inr payload
           \<and> length payload < 65536
           \<and> \<not> extn_empty se extn
           \<and> (\<forall>rest. make_extension sr (payload @ rest) (extn_type extn)
                       (of_nat (length payload)) whoami mt = Inr (extn, rest))"
proof -
  from e f have c: "schemes \<noteq> []" "length schemes < 256" by simp_all
  define len :: u16 where "len = of_nat (2 * length schemes)"
  let ?p = "get_byte_0 len # get_byte_1 len # store_be_u16 schemes"
  from c have ul: "unat len = 2 * length schemes"
    unfolding len_def by (intro unat_of_nat_u16) simp
  with c have nz: "len \<noteq> 0" by (metis length_0_conv mult_is_0 unat_0 zero_neq_numeral)
  have l: "length ?p = 2 * length schemes + 2" by simp
  from c have us: "unat (of_nat (2 * length schemes + 2) :: u16) = 2 * length schemes + 2"
    by (intro unat_of_nat_u16) simp
  have s: "extn_serialize ss extn whoami = Inr ?p"
    using c by (simp add: e push_back_u16s_eq mult.commute len_def)
  from c have lp: "schemes_loop (store_be_u16 schemes @ rest) len [] = Inr (schemes, rest)"
    for rest
    unfolding len_def using schemes_loop_encoded [of schemes rest "[]"] by simp
  have m: "make_extension sr (?p @ rest) (extn_type extn) (of_nat (length ?p)) whoami mt
             = Inr (extn, rest)" for rest
    unfolding l e extn_type.simps make_extension_known Signature_Algorithms_ctor_def
    using ul us nz lp [of rest] by simp
  from c have "length ?p < 65536" by simp
  with s m c(1) show ?thesis unfolding e extn_empty.simps by blast
qed

lemma wire_faithful_srtp:
  fixes extn :: "'c Extension"
  assumes e: "extn = SRTP_Protection_Profiles pp" and f: "wire_faithful whoami extn"
  shows "\<exists>payload.
           extn_serialize ss extn whoami = Inr payload
           \<and> length payload < 65536
           \<and> \<not> extn_empty se extn
           \<and> (\<forall>rest. make_extension sr (payload @ rest) (extn_type extn)
                       (of_nat (length payload)) whoami mt = Inr (extn, rest))"
proof -
  from e f have c: "pp \<noteq> []" "length pp \<le> 32766" by simp_all
  define len :: u16 where "len = of_nat (2 * length pp)"
  let ?p = "get_byte_0 len # get_byte_1 len # store_be_u16 pp @ [0]"
  from c have ul: "unat len = 2 * length pp"
    unfolding len_def by (intro unat_of_nat_u16) simp
  have l: "length ?p = 2 * length pp + 3" by simp
  from c have us: "unat (of_nat (2 * length pp + 3) :: u16) = 2 * length pp + 3"
    by (intro unat_of_nat_u16) simp
  have s: "extn_serialize ss extn whoami = Inr ?p"
    by (simp add: e push_back_u16s_eq mult.commute len_def)
  have g1: "get_range_u16 (?p @ rest) 2 0 65535 = Inr (pp, 0 # rest)" for rest
    unfolding get_range_u16_2_Inr using ul c by (intro exI [of _ len]) simp
  have g2: "get_range_u8 (0 # rest) 1 0 255 = Inr ([], rest)" for rest
    using get_range_u8_1_encoded [of 0 "[]" 255 rest] by simp
  have m: "make_extension sr (?p @ rest) (extn_type extn) (of_nat (length ?p)) whoami mt
             = Inr (extn, rest)" for rest
    unfolding l e extn_type.simps make_extension_known SRTP_Protection_Profiles_ctor_def
    using us g1 [of rest] g2 [of rest] by simp
  from c have "length ?p < 65536" by simp
  with s m c(1) show ?thesis unfolding e extn_empty.simps by blast
qed

lemma wire_faithful_alpn:
  fixes extn :: "'c Extension"
  assumes e: "extn = Application_Layer_Protocol_Notification ps" and f: "wire_faithful whoami extn"
  shows "\<exists>payload.
           extn_serialize ss extn whoami = Inr payload
           \<and> length payload < 65536
           \<and> \<not> extn_empty se extn
           \<and> (\<forall>rest. make_extension sr (payload @ rest) (extn_type extn)
                       (of_nat (length payload)) whoami mt = Inr (extn, rest))"
proof -
  from e f have a: "ps \<noteq> []" "\<forall>p \<in> set ps. p \<noteq> [] \<and> length p < 256"
    "length (concat ps) + length ps \<le> 65533" "whoami = SERVER \<Longrightarrow> length ps = 1"
    by (simp_all add: list_all_iff split: if_splits)
  define body where "body = concat (map (\<lambda>p. of_nat (length p) # p) ps)"
  define len :: u16 where "len = of_nat (length body)"
  let ?p = "get_byte_0 len # get_byte_1 len # body"
  from a have lb: "length body \<le> 65533" by (simp add: body_def length_concat_prefixed)
  then have ul: "unat len = length body" unfolding len_def by (intro unat_of_nat_u16) simp
  from ul have ui: "uint len = int (length body)" by (metis uint_nat)
  have l: "length ?p = length body + 2" by simp
  from lb have us: "unat (of_nat (length body + 2) :: u16) = length body + 2"
    by (intro unat_of_nat_u16) simp
  then have nz: "(of_nat (length body + 2) :: u16) \<noteq> 0"
    by (metis add_is_0 unat_0 zero_neq_numeral)
  have s: "extn_serialize ss extn whoami = Inr ?p"
    using alpn_serialize_loop_eq [OF a(2), of "[0, 0]"]
    by (simp add: e body_def len_def)
  have md: "(int (length body + 2) - 2) mod 2 ^ 64 = int (length body)"
    using lb by (simp add: mod_pos_pos_trivial)
  have lp: "alpn_loop (body @ rest) (length body) [] = Inr (ps, rest)" for rest
    unfolding body_def using alpn_loop_encoded [OF a(2), of rest "[]"] by simp
  have m: "make_extension sr (?p @ rest) (extn_type extn) (of_nat (length ?p)) whoami mt
             = Inr (extn, rest)" for rest
    unfolding l e extn_type.simps make_extension_known
      Application_Layer_Protocol_Notification_ctor_def
    using ul ui us nz md lp [of rest] a(4) by simp
  from lb have "length ?p < 65536" by simp
  with s m a(1) show ?thesis unfolding e extn_empty.simps by blast
qed

lemma wire_faithful_markers:
  fixes extn :: "'c Extension"
  assumes e: "extn = Extended_Master_Secret \<or> extn = Encrypt_then_MAC" and f: "wire_faithful whoami extn"
  shows "\<exists>payload.
           extn_serialize ss extn whoami = Inr payload
           \<and> length payload < 65536
           \<and> \<not> extn_empty se extn
           \<and> (\<forall>rest. make_extension sr (payload @ rest) (extn_type extn)
                       (of_nat (length payload)) whoami mt = Inr (extn, rest))"
  using e
  by (intro exI [of _ "[]"])
     (auto simp: make_extension_known Extended_Master_Secret_ctor_def
                 Encrypt_then_MAC_ctor_def)

lemma wire_faithful_session_ticket:
  fixes extn :: "'c Extension"
  assumes e: "extn = Session_Ticket ticket" and f: "wire_faithful whoami extn"
  shows "\<exists>payload.
           extn_serialize ss extn whoami = Inr payload
           \<and> length payload < 65536
           \<and> \<not> extn_empty se extn
           \<and> (\<forall>rest. make_extension sr (payload @ rest) (extn_type extn)
                       (of_nat (length payload)) whoami mt = Inr (extn, rest))"
proof -
  from e f have t: "length ticket < 65536" by simp
  then have us: "unat (of_nat (length ticket) :: u16) = length ticket"
    by (rule unat_of_nat_u16)
  have m: "make_extension sr (ticket @ rest) (extn_type extn) (of_nat (length ticket))
             whoami mt = Inr (extn, rest)" for rest
    unfolding e extn_type.simps make_extension_known Session_Ticket_ctor_def
    using us by (simp add: get_elem_u8_def)
  have s: "extn_serialize ss extn whoami = Inr ticket" by (simp add: e)
  from s m t show ?thesis unfolding e extn_empty.simps by blast
qed

lemma wire_faithful_supported_versions:
  fixes extn :: "'c Extension"
  assumes e: "extn = Supported_Versions versions" and f: "wire_faithful whoami extn"
  shows "\<exists>payload.
           extn_serialize ss extn whoami = Inr payload
           \<and> length payload < 65536
           \<and> \<not> extn_empty se extn
           \<and> (\<forall>rest. make_extension sr (payload @ rest) (extn_type extn)
                       (of_nat (length payload)) whoami mt = Inr (extn, rest))"
proof (cases "whoami = SERVER")
  case True
  with e f obtain v where v: "versions = [v]" by (cases versions) auto
  have m: "make_extension sr ([get_byte_0 v, get_byte_1 v] @ rest) (extn_type extn)
             (of_nat (length [get_byte_0 v, get_byte_1 v])) whoami mt = Inr (extn, rest)"
    for rest
    unfolding e extn_type.simps make_extension_known Supported_Versions_ctor_def
    by (simp add: True v)
  have s: "extn_serialize ss extn whoami = Inr [get_byte_0 v, get_byte_1 v]"
    by (simp add: e True v)
  from s m show ?thesis unfolding e v extn_empty.simps
    by (intro exI [of _ "[get_byte_0 v, get_byte_1 v]"]) simp
next
  case False
  with e f have c: "versions \<noteq> []" "length versions \<le> 127" by simp_all
  define len :: u8 where "len = of_nat (length versions * 2)"
  let ?p = "len # store_be_u16 versions"
  from c have ul: "unat len = 2 * length versions"
    unfolding len_def using unat_of_nat_u8 [of "length versions * 2"]
    by (simp add: mult.commute)
  have l: "length ?p = 2 * length versions + 1" by simp
  from c have us: "unat (of_nat (2 * length versions + 1) :: u16) = 2 * length versions + 1"
    by (intro unat_of_nat_u16) simp
  have s: "extn_serialize ss extn whoami = Inr ?p"
    using False c by (simp add: e push_back_u16s_eq len_def)
  have g: "get_range_u16 (?p @ rest) 1 1 127 = Inr (versions, rest)" for rest
    unfolding get_range_u16_1_Inr One_nat_def using ul c
    by (intro exI [of _ len]) (cases versions; simp)
  have m: "make_extension sr (?p @ rest) (extn_type extn) (of_nat (length ?p)) whoami mt
             = Inr (extn, rest)" for rest
    unfolding l e extn_type.simps make_extension_known Supported_Versions_ctor_def
    using us g [of rest] False by simp
  from c have "length ?p < 65536" by simp
  with s m c(1) show ?thesis unfolding e extn_empty.simps by blast
qed

lemma wire_faithful_roundtrip:
  fixes extn :: "'c Extension"
  assumes "wire_faithful whoami extn"
  shows "\<exists>payload.
           extn_serialize ss extn whoami = Inr payload
           \<and> length payload < 65536
           \<and> \<not> extn_empty se extn
           \<and> (\<forall>rest. make_extension sr (payload @ rest) (extn_type extn)
                       (of_nat (length payload)) whoami mt = Inr (extn, rest))"
proof (cases extn)
  case (Server_Name_Indicator host)
  from wire_faithful_server_name [OF this assms] show ?thesis .
next
  case (Supported_Groups gs)
  from wire_faithful_supported_groups [OF this assms] show ?thesis .
next
  case (Certificate_Status_Request c)
  with assms show ?thesis by simp
next
  case (Supported_Point_Formats p)
  from wire_faithful_point_formats [OF this assms] show ?thesis .
next
  case (Renegotiation_Extension d)
  from wire_faithful_renegotiation [OF this assms] show ?thesis .
next
  case (Signature_Algorithms schemes)
  from wire_faithful_signature_algorithms [OF this assms] show ?thesis .
next
  case (SRTP_Protection_Profiles pp)
  from wire_faithful_srtp [OF this assms] show ?thesis .
next
  case (Application_Layer_Protocol_Notification ps)
  from wire_faithful_alpn [OF this assms] show ?thesis .
next
  case Extended_Master_Secret
  then have "extn = Extended_Master_Secret \<or> extn = Encrypt_then_MAC" by simp
  from wire_faithful_markers [OF this assms] show ?thesis .
next
  case Encrypt_then_MAC
  then have "extn = Extended_Master_Secret \<or> extn = Encrypt_then_MAC" by simp
  from wire_faithful_markers [OF this assms] show ?thesis .
next
  case (Session_Ticket ticket)
  from wire_faithful_session_ticket [OF this assms] show ?thesis .
next
  case (Supported_Versions versions)
  from wire_faithful_supported_versions [OF this assms] show ?thesis .
next
  case (Unknown_Extension t v)
  with assms show ?thesis by simp
qed

text \<open>
  The two loops, one after the other: what \<open>serialize\<close> appends for faithful carriers
  with distinct codes, none of them in the container yet, \<open>deserialize\<close> reads back into
  those carriers, in order.
\<close>

lemma roundtrip_loops:
  assumes "\<forall>extn \<in> set extns. wire_faithful whoami extn"
      and "distinct (map extn_type extns)"
      and "\<forall>extn \<in> set extns. \<not> has m (extn_type extn)"
      and "serialize_loop se ss whoami extns buf = Inr out"
      and "length out < length buf + 65536"
  shows "\<exists>body. out = buf @ body
           \<and> deserialize_loop sr m body whoami mt = (None, m @ extns)"
  using assms
proof (induction extns arbitrary: buf m)
  case Nil
  then show ?case by (simp add: deserialize_loop.simps has_remaining_def)
next
  case (Cons extn extns)
  from Cons.prems(1) have "wire_faithful whoami extn" by simp
  from wire_faithful_roundtrip [OF this, of ss se sr mt] obtain payload where
    s: "extn_serialize ss extn whoami = Inr payload" and
    l: "length payload < 65536" and ne: "\<not> extn_empty se extn" and
    mk: "\<And>rest. make_extension sr (payload @ rest) (extn_type extn)
                  (of_nat (length payload)) whoami mt = Inr (extn, rest)"
    by blast
  let ?buf = "buf @ [get_byte_0 (extn_type extn), get_byte_1 (extn_type extn),
                     get_byte_0 (of_nat (length payload)),
                     get_byte_1 (of_nat (length payload))] @ payload"
  from Cons.prems(4) s ne have sl: "serialize_loop se ss whoami extns ?buf = Inr out"
    by simp
  from Cons.prems(5) have bound: "length out < length ?buf + 65536" by simp
  from Cons.prems(2,3) have
    nh: "\<forall>e \<in> set extns. \<not> has (m @ [extn]) (extn_type e)"
    by (auto simp: has_append)
  from Cons.prems(1,2) have
    "\<forall>e \<in> set extns. wire_faithful whoami e" "distinct (map extn_type extns)"
    by simp_all
  from Cons.IH [OF this nh sl bound] obtain body where
    out: "out = ?buf @ body" and
    d: "deserialize_loop sr (m @ [extn]) body whoami mt = (None, (m @ [extn]) @ extns)"
    by blast
  from Cons.prems(3) have nhm: "\<not> has m (extn_type extn)" by simp
  then have ad: "add m extn = (None, m @ [extn])" by (simp add: add_def)
  from l have us: "unat (of_nat (length payload) :: u16) = length payload"
    by (rule unat_of_nat_u16)
  let ?body = "[get_byte_0 (extn_type extn), get_byte_1 (extn_type extn),
                get_byte_0 (of_nat (length payload)),
                get_byte_1 (of_nat (length payload))] @ payload @ body"
  have "deserialize_loop sr m ?body whoami mt = (None, m @ extn # extns)"
    using nhm mk [of body] ad d
    by (subst deserialize_loop.simps) (simp add: has_remaining_def)
  moreover from out have "out = buf @ ?body" by simp
  ultimately show ?case by blast
qed

lemma serialize_loop_all_empty:
  "\<forall>extn \<in> set extns. extn_empty se extn \<Longrightarrow>
   serialize_loop se ss whoami extns buf = Inr buf"
  by (induction extns) simp_all

text \<open>
  C1, as amended. Let a container hold faithful carriers with distinct codes, and let
  \<open>b\<close>, of at most 65535 bytes after its size field, be what \<open>serialize\<close> returns for
  it. Then \<open>deserialize\<close> parses \<open>b\<close> without an error into that container, and
  \<open>serialize\<close> applied to the parsed container returns exactly \<open>b\<close>. A container whose
  carriers all declare themselves empty is serialized to the empty byte sequence.
\<close>

theorem serialize_deserialize_roundtrip:
  fixes m_extensions :: "'c Extensions"
  shows
  "(list_all (wire_faithful whoami) m_extensions
    \<and> distinct (map extn_type m_extensions)
    \<and> serialize status_request_empty status_request_serialize m_extensions whoami = Inr b
    \<and> length b \<le> 65537
    \<longrightarrow> deserialize status_request [] b whoami message_type = (None, m_extensions)
        \<and> serialize status_request_empty status_request_serialize
             (snd (deserialize status_request [] b whoami message_type)) whoami = Inr b)
   \<and> (list_all (extn_empty status_request_empty) m_extensions
        \<longrightarrow> serialize status_request_empty status_request_serialize m_extensions whoami
              = Inr [])"
proof -
  have rt: "deserialize status_request [] b whoami message_type = (None, m_extensions)"
    if f: "list_all (wire_faithful whoami) m_extensions"
      and d: "distinct (map extn_type m_extensions)"
      and s: "serialize status_request_empty status_request_serialize m_extensions whoami
                = Inr b"
      and l: "length b \<le> 65537"
  proof -
    from s obtain buf where
      sl: "serialize_loop status_request_empty status_request_serialize whoami
             m_extensions [0, 0] = Inr buf"
      by (auto simp: serialize_def split: sum.splits)
    from sl obtain body0 where b0: "buf = [0, 0] @ body0"
      unfolding serialize_loop_Inr by blast
    from s sl b0 have b: "b = (if body0 = [] then []
                               else get_byte_0 (of_nat (length body0))
                                      # get_byte_1 (of_nat (length body0)) # body0)"
      by (cases "body0 = []") (simp_all add: serialize_def Let_def)
    with l b0 have "length buf < length [0 :: u8, 0] + 65536"
      by (simp split: if_splits)
    with f d sl have
      "\<exists>body. buf = [0, 0] @ body
         \<and> deserialize_loop status_request [] body whoami message_type
             = (None, [] @ m_extensions)"
      by (intro roundtrip_loops) (simp_all add: list_all_iff has_def)
    with b0 have dl:
      "deserialize_loop status_request [] body0 whoami message_type = (None, m_extensions)"
      by simp
    show ?thesis
    proof (cases "body0 = []")
      case True
      with dl have "m_extensions = []"
        by (simp add: deserialize_loop.simps has_remaining_def)
      with True b show ?thesis by (simp add: deserialize_def has_remaining_def)
    next
      case False
      from b l False have "length body0 < 65536" by simp
      then have "unat (of_nat (length body0) :: u16) = length body0"
        by (rule unat_of_nat_u16)
      with b False dl show ?thesis
        by (simp add: deserialize_def has_remaining_def remaining_bytes_def)
    qed
  qed
  have em: "serialize status_request_empty status_request_serialize m_extensions whoami
              = Inr []"
    if "list_all (extn_empty status_request_empty) m_extensions"
    using that serialize_loop_all_empty
            [of m_extensions status_request_empty status_request_serialize whoami "[0, 0]"]
    by (simp add: serialize_def list_all_iff)
  from rt em show ?thesis by auto
qed

theorem serialize_deserialize_roundtrip_witness:
  "deserialize (\<lambda>r s f m. Inl Decoding_Error)
     [] [0, 15, 0, 23, 0, 0, 0, 0, 0, 7, 0, 5, 0, 0, 2, 0x65, 0x78] SERVER SERVER_HELLO
     = (None, [Extended_Master_Secret, Server_Name_Indicator [0x65, 0x78] :: unit Extension])
   \<and> serialize (\<lambda>c. False) (\<lambda>c s. Inl Invalid_State)
         (snd (deserialize (\<lambda>r s f m. Inl Decoding_Error)
                 [] [0, 15, 0, 23, 0, 0, 0, 0, 0, 7, 0, 5, 0, 0, 2, 0x65, 0x78]
                 SERVER SERVER_HELLO)
            :: unit Extensions) SERVER
       = Inr [0, 15, 0, 23, 0, 0, 0, 0, 0, 7, 0, 5, 0, 0, 2, 0x65, 0x78]"
proof -
  let ?m = "[Extended_Master_Secret, Server_Name_Indicator [0x65, 0x78] :: unit Extension]"
  let ?b = "[0, 15, 0, 23, 0, 0, 0, 0, 0, 7, 0, 5, 0, 0, 2, 0x65, 0x78] :: u8 list"
  have f: "list_all (wire_faithful SERVER) ?m" by simp
  have d: "distinct (map extn_type ?m)" by (simp add: TLSEXT_defs)
  have s: "serialize (\<lambda>c. False) (\<lambda>c s. Inl Invalid_State) ?m SERVER = Inr ?b"
    by (simp add: reader_eval ctor_eval container_eval)
  have l: "length ?b \<le> 65537" by simp
  from serialize_deserialize_roundtrip
         [of SERVER ?m "\<lambda>c. False" "\<lambda>c s. Inl Invalid_State" ?b
             "\<lambda>r s f m. Inl Decoding_Error" SERVER_HELLO]
       f d s l
  show ?thesis by blast
qed

text \<open>
  C1, as stated, fails. A block with an unknown extension is parsed, and serializing the
  parsed container throws \<open>Invalid_State\<close>. A block with the point formats list of the
  compressed-prime format alone is parsed, and the parsed container is serialized to
  another block, with the list that the serializer always writes. Neither is a block of
  empty payloads only.
\<close>

theorem serialize_deserialize_not_identity:
  "deserialize (\<lambda>r s f m. Inl Decoding_Error)
     [] [0, 8, 0xFF, 0xAA, 0, 4, 0xDE, 0xAD, 0xBE, 0xEF] CLIENT CLIENT_HELLO
     = (None, [Unknown_Extension 0xFFAA [0xDE, 0xAD, 0xBE, 0xEF] :: unit Extension])
   \<and> serialize (\<lambda>c. False) (\<lambda>c s. Inl Invalid_State)
         (snd (deserialize (\<lambda>r s f m. Inl Decoding_Error)
                 [] [0, 8, 0xFF, 0xAA, 0, 4, 0xDE, 0xAD, 0xBE, 0xEF] CLIENT CLIENT_HELLO)
            :: unit Extensions) CLIENT
       = Inl Invalid_State
   \<and> deserialize (\<lambda>r s f m. Inl Decoding_Error)
         [] [0, 6, 0, 11, 0, 2, 1, 1] CLIENT CLIENT_HELLO
       = (None, [Supported_Point_Formats True :: unit Extension])
   \<and> serialize (\<lambda>c. False) (\<lambda>c s. Inl Invalid_State)
         (snd (deserialize (\<lambda>r s f m. Inl Decoding_Error)
                 [] [0, 6, 0, 11, 0, 2, 1, 1] CLIENT CLIENT_HELLO)
            :: unit Extensions) CLIENT
       = Inr [0, 7, 0, 11, 0, 3, 2, 1, 0]"
  by (simp add: reader_eval ctor_eval container_eval)

end
